theory Spec2Isabelle
  imports Complex_Main "HOL-Library.Word" "HOL-Library.Log_Nat"
begin

section \<open>Common data\<close>

type_synonym byte = "8 word"
type_synonym int16 = "16 word"

text \<open>
  A value thrown by a JavaScript \<^verbatim>\<open>throw\<close>: an \<^verbatim>\<open>Error\<close> object with its
  message, or any other value.
\<close>

datatype thrown = ErrorObj string | OtherValue

section \<open>JavaScript numbers\<close>

text \<open>
  A JavaScript \<^verbatim>\<open>number\<close> is an IEEE 754 double: a finite value, which is a rational
  number (\<open>Fin 0\<close> is the zero with a plus sign), the zero with a minus sign, one of the
  two infinities, or NaN. Every finite double is a \<open>Fin q\<close>; the operations below are
  defined on every rational and round their results to doubles.
\<close>

datatype jsnum = Fin rat | NegZero | PosInf | NegInf | NaN

text \<open>
  Rounding a rational to the nearest double, ties to the even significand: \<open>ilog2 a\<close>
  is the exponent of \<open>a > 0\<close> (\<open>2 ^ e \<le> a < 2 ^ (e + 1)\<close>), not taken below the exponent
  \<open>- 1022\<close> of the subnormal numbers; the unit in the last of the 53 significant bits is
  \<open>2 ^ (e - 52)\<close>. A result of magnitude \<open>2 ^ 1024\<close> (the numeral \<open>double_overflow\<close>) or
  more is an infinity, and one that rounds to zero keeps its sign.
\<close>

definition pow2 :: "int \<Rightarrow> rat" where
  "pow2 e = (if 0 \<le> e then 2 ^ nat e else 1 / 2 ^ nat (- e))"

definition ilog2 :: "rat \<Rightarrow> int" where
  "ilog2 a = (case quotient_of a of (n, d) \<Rightarrow>
     (let k = bitlen n - bitlen d in if pow2 k \<le> a then k else k - 1))"

definition round_half_even :: "rat \<Rightarrow> int" where
  "round_half_even x =
     (let f = \<lfloor>x\<rfloor>; r = x - of_int f
      in if r < 1 / 2 then f else if 1 / 2 < r then f + 1 else if even f then f else f + 1)"

definition double_overflow :: rat where
  "double_overflow =
     179769313486231590772930519078902473361797697894230657273430081157732675805500963132708477322407536021120113879871393357658789768814416622492847430639474124377767893424865485276302219601246094119453082952085005768838150682342462881473913110540827237163350510684586298239947245938479716304835356329624224137216"

definition round_double :: "rat \<Rightarrow> jsnum" where
  "round_double q =
     (if q = 0 then Fin 0
      else
        (let a = \<bar>q\<bar>;
             e = max (ilog2 a) (- 1022);
             u = pow2 (e - 52);
             r = of_int (round_half_even (a / u)) * u
         in if double_overflow \<le> r then (if 0 < q then PosInf else NegInf)
            else if r = 0 then (if 0 < q then Fin 0 else NegZero)
            else Fin (if 0 < q then r else - r)))"

text \<open>
  The arithmetic of the \<^verbatim>\<open>+\<close>, \<^verbatim>\<open>-\<close>, \<^verbatim>\<open>*\<close> and \<^verbatim>\<open>/\<close> operators on numbers, with the
  special cases of IEEE 754: NaN is contagious, \<open>\<infinity> - \<infinity>\<close>, \<open>0 * \<infinity>\<close>, \<open>0 / 0\<close> and
  \<open>\<infinity> / \<infinity>\<close> are NaN, and a zero result has the sign the operands give it.
\<close>

fun is_zero :: "jsnum \<Rightarrow> bool" where
  "is_zero (Fin q) = (q = 0)"
| "is_zero NegZero = True"
| "is_zero _ = False"

fun is_inf :: "jsnum \<Rightarrow> bool" where
  "is_inf PosInf = True"
| "is_inf NegInf = True"
| "is_inf _ = False"

fun sign_bit :: "jsnum \<Rightarrow> bool" where
  "sign_bit (Fin q) = (q < 0)"
| "sign_bit NegZero = True"
| "sign_bit NegInf = True"
| "sign_bit _ = False"

fun fin_val :: "jsnum \<Rightarrow> rat" where
  "fin_val (Fin q) = q"
| "fin_val _ = 0"

fun fneg :: "jsnum \<Rightarrow> jsnum" where
  "fneg (Fin q) = (if q = 0 then NegZero else Fin (- q))"
| "fneg NegZero = Fin 0"
| "fneg PosInf = NegInf"
| "fneg NegInf = PosInf"
| "fneg NaN = NaN"

definition fadd :: "jsnum \<Rightarrow> jsnum \<Rightarrow> jsnum" where
  "fadd x y =
     (if x = NaN \<or> y = NaN then NaN
      else if is_inf x \<and> is_inf y then (if x = y then x else NaN)
      else if is_inf x then x
      else if is_inf y then y
      else if x = NegZero then y
      else if y = NegZero then x
      else round_double (fin_val x + fin_val y))"

definition fsub :: "jsnum \<Rightarrow> jsnum \<Rightarrow> jsnum" where
  "fsub x y = fadd x (fneg y)"

definition fmul :: "jsnum \<Rightarrow> jsnum \<Rightarrow> jsnum" where
  "fmul x y =
     (if x = NaN \<or> y = NaN then NaN
      else if (is_inf x \<and> is_zero y) \<or> (is_zero x \<and> is_inf y) then NaN
      else if is_inf x \<or> is_inf y then (if sign_bit x = sign_bit y then PosInf else NegInf)
      else if is_zero x \<or> is_zero y then (if sign_bit x = sign_bit y then Fin 0 else NegZero)
      else round_double (fin_val x * fin_val y))"

definition fdiv :: "jsnum \<Rightarrow> jsnum \<Rightarrow> jsnum" where
  "fdiv x y =
     (if x = NaN \<or> y = NaN then NaN
      else if (is_inf x \<and> is_inf y) \<or> (is_zero x \<and> is_zero y) then NaN
      else if is_inf x \<or> is_zero y then (if sign_bit x = sign_bit y then PosInf else NegInf)
      else if is_inf y \<or> is_zero x then (if sign_bit x = sign_bit y then Fin 0 else NegZero)
      else round_double (fin_val x / fin_val y))"

text \<open>
  The \<^verbatim>\<open><\<close> comparison (false when an operand is NaN; the two zeros are equal), and
  \<^verbatim>\<open>Math.max\<close> and \<^verbatim>\<open>Math.min\<close> of two arguments (NaN when an argument is NaN; the zero
  with a minus sign is the smaller zero).
\<close>

fun js_less :: "jsnum \<Rightarrow> jsnum \<Rightarrow> bool" where
  "js_less NaN _ = False"
| "js_less _ NaN = False"
| "js_less PosInf _ = False"
| "js_less _ PosInf = True"
| "js_less _ NegInf = False"
| "js_less NegInf _ = True"
| "js_less x y = (fin_val x < fin_val y)"

definition Math_max :: "jsnum \<Rightarrow> jsnum \<Rightarrow> jsnum" where
  "Math_max x y =
     (if x = NaN \<or> y = NaN then NaN
      else if js_less x y then y
      else if js_less y x then x
      else if x = NegZero then y else x)"

definition Math_min :: "jsnum \<Rightarrow> jsnum \<Rightarrow> jsnum" where
  "Math_min x y =
     (if x = NaN \<or> y = NaN then NaN
      else if js_less x y then x
      else if js_less y x then y
      else if x = NegZero then x else y)"

text \<open>
  Reading an element of an \<^verbatim>\<open>Int16Array\<close> gives its signed value as a number. Storing
  a number converts it with ToInt16: NaN, the zeros and the infinities become 0, any
  other value is truncated towards zero and wrapped to 16 bits.
\<close>

definition num_of_int16 :: "int16 \<Rightarrow> jsnum" where
  "num_of_int16 w = Fin (of_int (sint w))"

fun to_int16 :: "jsnum \<Rightarrow> int16" where
  "to_int16 (Fin q) = word_of_int (if 0 \<le> q then \<lfloor>q\<rfloor> else \<lceil>q\<rceil>)"
| "to_int16 _ = 0"

text \<open>\<^verbatim>\<open>Math.PI\<close> is the double nearest to \<open>\<pi>\<close>.\<close>

definition Math_PI :: jsnum where
  "Math_PI = Fin (884279719003555 / 281474976710656)"

section \<open>FrameEncoder: \<^verbatim>\<open>createTtsBuffer\<close>\<close>

text \<open>
  \<^verbatim>\<open>Uint8Array.prototype.subarray(begin, end)\<close> on indices that are not negative:
  both indices are clamped to the length, and an empty view results when \<open>end \<le> begin\<close>.
\<close>

definition subarray :: "'a list \<Rightarrow> nat \<Rightarrow> nat \<Rightarrow> 'a list" where
  "subarray xs b e = take (e - b) (drop b xs)"

text \<open>
  The Opus encoder is an object outside the repository, with a state of its own:
  \<open>enc s slice\<close> is what \<^verbatim>\<open>ttsEncoder.encode(slice)\<close> does in encoder state \<open>s\<close>, either
  throwing or returning the packet, together with the encoder's next state.
  \<^verbatim>\<open>TTS_FRAME_SIZE_BYTES\<close> is a constant of \<^verbatim>\<open>config.ts\<close>; it is the parameter \<open>F\<close>.
\<close>

type_synonym 'e encoder = "'e \<Rightarrow> byte list \<Rightarrow> (thrown + byte list) \<times> 'e"

text \<open>
  The \<^verbatim>\<open>while\<close> loop of \<^verbatim>\<open>encodePcmChunk\<close>, on the variables \<open>offset\<close> and \<open>frames\<close> and
  the encoder's state. With \<open>F = 0\<close> the condition never fails and the loop does not
  return, which is the value \<open>None\<close>.
\<close>

partial_function (option) encode_loop ::
  "nat \<Rightarrow> 'e encoder \<Rightarrow> byte list \<Rightarrow> nat \<Rightarrow> byte list list \<Rightarrow> 'e
     \<Rightarrow> (nat \<times> byte list list \<times> 'e) option" where
  "encode_loop F enc combined offset frames s =
     (if offset + F \<le> length combined then
        (let slice = subarray combined offset (offset + F);
             offset' = offset + F
         in case enc s slice of
              (Inr opusData, s') \<Rightarrow> encode_loop F enc combined offset' (frames @ [opusData]) s'
            | (Inl e, s') \<Rightarrow> encode_loop F enc combined offset' frames s')
      else Some (offset, frames, s))"

declare encode_loop.simps [code]

text \<open>
  The state of one \<^verbatim>\<open>createTtsBuffer()\<close> closure is the variable \<open>leftover\<close>. One call of
  \<^verbatim>\<open>encodePcmChunk\<close> returns the frames, the new \<open>leftover\<close> and the encoder's state.
  \<open>encodePcmChunk_offset\<close> is the value of \<open>offset\<close> when the loop is left: the number of
  bytes of \<open>combined\<close> that went into complete windows.
\<close>

definition encodePcmChunk_offset :: "nat \<Rightarrow> 'e encoder \<Rightarrow> byte list \<times> 'e \<Rightarrow> byte list \<Rightarrow> nat option" where
  "encodePcmChunk_offset F enc st rawPcm =
     (let combined = fst st @ rawPcm
      in map_option fst (encode_loop F enc combined 0 [] (snd st)))"

definition encodePcmChunk ::
  "nat \<Rightarrow> 'e encoder \<Rightarrow> byte list \<times> 'e \<Rightarrow> byte list \<Rightarrow> (byte list list \<times> byte list \<times> 'e) option" where
  "encodePcmChunk F enc st rawPcm =
     (let combined = fst st @ rawPcm
      in case encode_loop F enc combined 0 [] (snd st) of
           None \<Rightarrow> None
         | Some (offset, frames, s') \<Rightarrow> Some (frames, drop offset combined, s'))"

definition reset :: "byte list \<times> 'e \<Rightarrow> byte list \<times> 'e" where
  "reset st = ([], snd st)"

definition createTtsBuffer :: "'e \<Rightarrow> byte list \<times> 'e" where
  "createTtsBuffer s = ([], s)"

text \<open>The operations a caller can apply to one frame encoder, and a run of them.\<close>

datatype tts_op = Append "byte list" | Reset

fun tts_step :: "nat \<Rightarrow> 'e encoder \<Rightarrow> byte list \<times> 'e \<Rightarrow> tts_op \<Rightarrow> (byte list \<times> 'e) option" where
  "tts_step F enc st (Append rawPcm) = map_option snd (encodePcmChunk F enc st rawPcm)"
| "tts_step F enc st Reset = Some (reset st)"

text \<open>
  \<open>tts_run\<close> gives the state after every operation of the run, in order; \<open>None\<close> when one
  of the calls does not return.
\<close>

fun tts_run :: "nat \<Rightarrow> 'e encoder \<Rightarrow> byte list \<times> 'e \<Rightarrow> tts_op list \<Rightarrow> (byte list \<times> 'e) list option" where
  "tts_run F enc st [] = Some []"
| "tts_run F enc st (x # xs) =
     (case tts_step F enc st x of
        None \<Rightarrow> None
      | Some st' \<Rightarrow> map_option (\<lambda>sts. st' # sts) (tts_run F enc st' xs))"

text \<open>
  What the specification says of one call: \<open>spec_windows\<close> are the complete windows of
  \<open>combined\<close>, and \<open>spec_encode_frames\<close> applies the encoder to each in order and keeps the
  outputs of the calls that did not fail.
\<close>

definition spec_windows :: "nat \<Rightarrow> 'a list \<Rightarrow> 'a list list" where
  "spec_windows F xs = map (\<lambda>i. take F (drop (i * F) xs)) [0 ..< length xs div F]"

fun spec_encode_frames :: "'e encoder \<Rightarrow> 'e \<Rightarrow> byte list list \<Rightarrow> byte list list \<times> 'e" where
  "spec_encode_frames enc s [] = ([], s)"
| "spec_encode_frames enc s (w # ws) =
     (case enc s w of
        (Inr d, s') \<Rightarrow> (case spec_encode_frames enc s' ws of (fs, s'') \<Rightarrow> (d # fs, s''))
      | (Inl e, s') \<Rightarrow> spec_encode_frames enc s' ws)"

text \<open>
  The same walk with every outcome kept: \<open>spec_encode_each\<close> submits each window to the
  encoder, in order and in the encoder state the earlier windows left, and records whether
  the call threw; \<open>spec_produced\<close> keeps the packets of the calls that returned.
\<close>

fun spec_encode_each :: "'e encoder \<Rightarrow> 'e \<Rightarrow> byte list list \<Rightarrow> (thrown + byte list) list \<times> 'e" where
  "spec_encode_each enc s [] = ([], s)"
| "spec_encode_each enc s (w # ws) =
     (case enc s w of
        (r, s') \<Rightarrow> (case spec_encode_each enc s' ws of (rs, s'') \<Rightarrow> (r # rs, s'')))"

fun spec_produced :: "(thrown + 'a) list \<Rightarrow> 'a list" where
  "spec_produced [] = []"
| "spec_produced (Inr d # rs) = d # spec_produced rs"
| "spec_produced (Inl e # rs) = spec_produced rs"

text \<open>
  A caller that feeds a stream in pieces: one \<^verbatim>\<open>encodePcmChunk\<close> call per piece, on the
  state the previous call left. The result adds up the bytes each call put into complete
  windows and collects the frames of all calls.
\<close>

fun append_all ::
  "nat \<Rightarrow> 'e encoder \<Rightarrow> byte list \<times> 'e \<Rightarrow> byte list list
     \<Rightarrow> (nat \<times> byte list list \<times> byte list \<times> 'e) option" where
  "append_all F enc st [] = Some (0, [], st)"
| "append_all F enc st (c # cs) =
     (case (encodePcmChunk_offset F enc st c, encodePcmChunk F enc st c) of
        (Some consumed, Some (frames, st')) \<Rightarrow>
          map_option (\<lambda>(n, fs, st''). (consumed + n, frames @ fs, st'')) (append_all F enc st' cs)
      | _ \<Rightarrow> None)"

text \<open>An encoder for concrete runs: it throws on a window that starts with a zero byte.\<close>

definition sample_encoder :: "nat encoder" where
  "sample_encoder s w =
     (case w of
        [] \<Rightarrow> (Inl (ErrorObj ''empty frame''), Suc s)
      | x # _ \<Rightarrow> if x = 0 then (Inl (ErrorObj ''bad frame''), Suc s)
                 else (Inr [x, of_nat (length w)], Suc s))"

section \<open>SampleFilter: \<^verbatim>\<open>AudioFilter\<close>\<close>

text \<open>
  The fields of the class. The buffer is modelled through the \<^verbatim>\<open>Int16Array\<close> view that
  \<^verbatim>\<open>processAudioInPlace\<close> and \<^verbatim>\<open>boostTtsVolumeInPlace\<close> lay over it: a list of 16-bit
  samples.
\<close>

record AudioFilter =
  highpassAlpha :: jsnum
  lowpassAlpha :: jsnum
  prevInputHighpass :: jsnum
  prevOutputHighpass :: jsnum
  prevOutputLowpass :: jsnum

text \<open>
  The constructor. \<^verbatim>\<open>Math.tan\<close> is an approximation the engine chooses and is the
  parameter \<open>Math_tan\<close>; \<^verbatim>\<open>MIC_SAMPLE_RATE\<close> is a constant of \<^verbatim>\<open>config.ts\<close> and the default
  of the argument \<open>sampleRate\<close>, used when the argument is missing (\<open>None\<close>).
\<close>

definition AudioFilter_new :: "(jsnum \<Rightarrow> jsnum) \<Rightarrow> jsnum \<Rightarrow> jsnum option \<Rightarrow> AudioFilter" where
  "AudioFilter_new Math_tan MIC_SAMPLE_RATE sampleRate_arg =
     (let sampleRate = (case sampleRate_arg of None \<Rightarrow> MIC_SAMPLE_RATE | Some r \<Rightarrow> r);
          highpass_cutoff = Fin 300;
          lowpass_cutoff = Fin 3500
      in \<lparr> highpassAlpha =
             fdiv (Fin 1) (fadd (Fin 1) (Math_tan (fdiv (fmul Math_PI highpass_cutoff) sampleRate))),
           lowpassAlpha =
             fdiv (Math_tan (fdiv (fmul Math_PI lowpass_cutoff) sampleRate))
                  (fadd (Fin 1) (Math_tan (fdiv (fmul Math_PI lowpass_cutoff) sampleRate))),
           prevInputHighpass = Fin 0,
           prevOutputHighpass = Fin 0,
           prevOutputLowpass = Fin 0 \<rparr>)"

text \<open>
  The \<^verbatim>\<open>for\<close> loop of \<^verbatim>\<open>processAudioInPlace\<close> on the index \<open>i\<close>, the fields of \<open>this\<close> and
  the samples. It returns the filter and the samples as the loop leaves them.
\<close>

function processAudio_loop :: "AudioFilter \<Rightarrow> int16 list \<Rightarrow> nat \<Rightarrow> AudioFilter \<times> int16 list" where
  "processAudio_loop this samples i =
     (if i < length samples then
        (let sample = num_of_int16 (samples ! i);
             inHigh = sample;
             outHigh = fmul (highpassAlpha this)
                         (fsub (fadd (prevOutputHighpass this) inHigh) (prevInputHighpass this));
             this1 = this\<lparr>prevInputHighpass := inHigh\<rparr>;
             this2 = this1\<lparr>prevOutputHighpass := outHigh\<rparr>;
             inLow = outHigh;
             outLow = fadd (fmul (lowpassAlpha this2) inLow)
                        (fmul (fsub (Fin 1) (lowpassAlpha this2)) (prevOutputLowpass this2));
             this3 = this2\<lparr>prevOutputLowpass := outLow\<rparr>;
             finalOut = fmul outLow (Fin 8);
             finalOut' = Math_max (Fin (- 32768)) (Math_min (Fin 32767) finalOut)
         in processAudio_loop this3 (samples[i := to_int16 finalOut']) (i + 1))
      else (this, samples))"
  by pat_completeness auto
termination
  by (relation "measure (\<lambda>(this, samples, i). length samples - i)") auto

declare processAudio_loop.simps [simp del]

definition processAudioInPlace :: "AudioFilter \<Rightarrow> int16 list \<Rightarrow> AudioFilter \<times> int16 list" where
  "processAudioInPlace this samples = processAudio_loop this samples 0"

section \<open>VolumeShaper: \<^verbatim>\<open>boostTtsVolumeInPlace\<close>\<close>

text \<open>The \<^verbatim>\<open>for\<close> loop, and the function with its default factor 2.0.\<close>

function boost_loop :: "jsnum \<Rightarrow> int16 list \<Rightarrow> nat \<Rightarrow> int16 list" where
  "boost_loop safeFactor samples i =
     (if i < length samples then
        (let val = fmul (num_of_int16 (samples ! i)) safeFactor;
             val' = Math_max (Fin (- 32768)) (Math_min (Fin 32767) val)
         in boost_loop safeFactor (samples[i := to_int16 val']) (i + 1))
      else samples)"
  by pat_completeness auto
termination
  by (relation "measure (\<lambda>(safeFactor, samples, i). length samples - i)") auto

declare boost_loop.simps [simp del]

definition boostTtsVolumeInPlace :: "int16 list \<Rightarrow> jsnum option \<Rightarrow> int16 list" where
  "boostTtsVolumeInPlace samples factor_arg =
     (let factor = (case factor_arg of None \<Rightarrow> Fin 2 | Some f \<Rightarrow> f);
          safeFactor = Math_max (Fin 0) factor
      in boost_loop safeFactor samples 0)"

section \<open>The filter and the gain as the specification words them\<close>

text \<open>
  The hard clip to the closed range from \<open>- 32768\<close> to \<open>32767\<close>: a value below the range
  becomes its lower end, a value above it the upper end, any other value is kept.
\<close>

definition spec_clip :: "jsnum \<Rightarrow> jsnum" where
  "spec_clip x =
     (if js_less x (Fin (- 32768)) then Fin (- 32768)
      else if js_less (Fin 32767) x then Fin 32767
      else x)"

text \<open>
  The two coefficients, from the cutoffs of 300 Hz and 3500 Hz and the sample rate \<open>Fs\<close>.
\<close>

definition spec_highpassAlpha :: "(jsnum \<Rightarrow> jsnum) \<Rightarrow> jsnum \<Rightarrow> jsnum" where
  "spec_highpassAlpha Math_tan Fs = fdiv (Fin 1) (fadd (Fin 1) (Math_tan (fdiv (fmul Math_PI (Fin 300)) Fs)))"

definition spec_lowpassAlpha :: "(jsnum \<Rightarrow> jsnum) \<Rightarrow> jsnum \<Rightarrow> jsnum" where
  "spec_lowpassAlpha Math_tan Fs =
     fdiv (Math_tan (fdiv (fmul Math_PI (Fin 3500)) Fs))
          (fadd (Fin 1) (Math_tan (fdiv (fmul Math_PI (Fin 3500)) Fs)))"

text \<open>
  One sample \<open>x\<close>: the high-pass difference form with its two state updates, the low-pass
  with its state update, the gain of 8, the clip and the truncation to an integer.
  \<open>spec_filter\<close> does so for each sample in order, each on the state the one before left.
\<close>

definition spec_filter_sample :: "AudioFilter \<Rightarrow> int16 \<Rightarrow> AudioFilter \<times> int16" where
  "spec_filter_sample st x =
     (let yHP = fmul (highpassAlpha st)
                  (fsub (fadd (prevOutputHighpass st) (num_of_int16 x)) (prevInputHighpass st));
          yLP = fadd (fmul (lowpassAlpha st) yHP)
                  (fmul (fsub (Fin 1) (lowpassAlpha st)) (prevOutputLowpass st));
          out = fmul yLP (Fin 8)
      in (st\<lparr>prevInputHighpass := num_of_int16 x, prevOutputHighpass := yHP,
             prevOutputLowpass := yLP\<rparr>,
          to_int16 (spec_clip out)))"

fun spec_filter :: "AudioFilter \<Rightarrow> int16 list \<Rightarrow> AudioFilter \<times> int16 list" where
  "spec_filter st [] = (st, [])"
| "spec_filter st (x # xs) =
     (case spec_filter_sample st x of
        (st', y) \<Rightarrow> (case spec_filter st' xs of (st'', ys) \<Rightarrow> (st'', y # ys)))"

text \<open>
  The gain: the factor clamped to \<open>max(0, factor)\<close>, the sample times that factor, clipped
  and truncated.
\<close>

definition spec_boost_sample :: "jsnum \<Rightarrow> int16 \<Rightarrow> int16" where
  "spec_boost_sample factor sample =
     to_int16 (spec_clip (fmul (num_of_int16 sample) (Math_max (Fin 0) factor)))"

section \<open>ConnectionGate: the \<^verbatim>\<open>upgrade\<close> handler\<close>

text \<open>
  What the handler reads of the request: \<^verbatim>\<open>req.url\<close> and the headers \<^verbatim>\<open>host\<close> and
  \<^verbatim>\<open>authorization\<close>, each of which can be missing.
\<close>

record request =
  req_url :: "string option"
  host :: "string option"
  authorization :: "string option"

text \<open>The context object handed over with the \<^verbatim>\<open>connection\<close> event.\<close>

record ('c, 'u) upgrade_context =
  user :: 'u
  supabase :: 'c
  timestamp :: string

text \<open>
  What the handler calls and does not define. \<open>searchParams_token url base\<close> is
  \<^verbatim>\<open>new URL(url, base).searchParams.get("token")\<close>: the constructor throws on text that
  is not a URL, and the lookup gives \<^verbatim>\<open>null\<close> (\<open>None\<close>) when there is no such parameter.
  \<open>createClient\<close> is the Supabase client factory and \<open>SUPABASE_URL\<close>, \<open>SUPABASE_KEY\<close> are
  the two environment variables. \<open>authenticateUser\<close> is imported from \<^verbatim>\<open>utils.ts\<close>.
  \<open>handleUpgrade\<close> is the method of the WebSocket server of the \<^verbatim>\<open>ws\<close> package: it
  throws, or completes the handshake and calls its callback with the new connection
  (\<open>Some ws\<close>), or ends the handshake itself without calling the callback (\<open>None\<close>).
  \<open>toISOString_now\<close> is \<^verbatim>\<open>new Date().toISOString()\<close> when the callback runs.
\<close>

record ('c, 'u, 'w) gate_env =
  searchParams_token :: "string \<Rightarrow> string \<Rightarrow> thrown + string option"
  SUPABASE_URL :: "string option"
  SUPABASE_KEY :: "string option"
  createClient :: "string option \<Rightarrow> string option \<Rightarrow> (string \<times> string) list \<Rightarrow> thrown + 'c"
  authenticateUser :: "'c \<Rightarrow> string \<Rightarrow> thrown + 'u"
  handleUpgrade :: "request \<Rightarrow> thrown + 'w option"
  toISOString_now :: string

text \<open>
  What the handler does to the outside, in order: lines on the console, bytes written to
  the socket, the socket destroyed, the \<^verbatim>\<open>connection\<close> event emitted. The listener of
  that event is registered by \<^verbatim>\<open>setupWebSocketConnectionHandler\<close> in another file; the
  event is the point where the connection leaves this handler, and the listener is taken
  to return to it without throwing.
\<close>

datatype log_line =
    IncomingUpgrade
  | NoTokenProvided
  | UserAuthenticated
  | UpgradeSuccessful
  | AuthenticationFailed string
  | UpgradeHandlerError thrown

datatype ('c, 'u, 'w) effect =
    Console log_line
  | SocketWrite string
  | SocketDestroy
  | EmitConnection 'w "('c, 'u) upgrade_context"

text \<open>
  \<^verbatim>\<open>String.prototype.replace\<close> with a string pattern replaces the first occurrence of
  the pattern, wherever it is; \<^verbatim>\<open>String.prototype.includes\<close> looks for an occurrence.
\<close>

fun replace_first :: "string \<Rightarrow> string \<Rightarrow> string \<Rightarrow> string" where
  "replace_first pat rep [] = (if pat = [] then rep else [])"
| "replace_first pat rep (c # cs) =
     (if take (length pat) (c # cs) = pat then rep @ drop (length pat) (c # cs)
      else c # replace_first pat rep cs)"

fun str_includes :: "string \<Rightarrow> string \<Rightarrow> bool" where
  "str_includes [] pat = (pat = [])"
| "str_includes (c # cs) pat = (take (length pat) (c # cs) = pat \<or> str_includes cs pat)"

text \<open>A string or \<^verbatim>\<open>null\<close>/\<^verbatim>\<open>undefined\<close> is truthy when it is a string that is not empty.\<close>

fun truthy :: "string option \<Rightarrow> bool" where
  "truthy None = False"
| "truthy (Some s) = (s \<noteq> [])"

definition crlf :: string where
  "crlf = [CHR 0x0D, CHR 0x0A]"

definition unauthorized_challenge :: string where
  "unauthorized_challenge =
     ''HTTP/1.1 401 Unauthorized'' @ crlf @
     ''WWW-Authenticate: Bearer realm='' @ [CHR 0x22] @ ''Access to WebSocket'' @ [CHR 0x22] @ crlf @
     crlf"

definition unauthorized_bare :: string where
  "unauthorized_bare = ''HTTP/1.1 401 Unauthorized'' @ crlf @ crlf"

text \<open>\<^verbatim>\<open>getSupabaseClient\<close> of \<^verbatim>\<open>supabase.ts\<close>.\<close>

definition getSupabaseClient :: "('c, 'u, 'w) gate_env \<Rightarrow> string \<Rightarrow> thrown + 'c" where
  "getSupabaseClient env userJwt =
     createClient env (SUPABASE_URL env) (SUPABASE_KEY env)
       [(''Authorization'', ''Bearer '' @ userJwt)]"

text \<open>
  The first two statements of the \<^verbatim>\<open>try\<close> block: the URL is parsed from \<^verbatim>\<open>req.url || "/"\<close>
  on the base \<^verbatim>\<open>ws://${req.headers.host}\<close>, and the token is the first truthy value of
  the query parameter, the \<^verbatim>\<open>authorization\<close> header after \<^verbatim>\<open>replace("Bearer ", "")\<close>, and
  the empty string.
\<close>

definition url_text :: "request \<Rightarrow> string" where
  "url_text req = (if truthy (req_url req) then the (req_url req) else ''/'')"

definition url_base :: "request \<Rightarrow> string" where
  "url_base req = ''ws://'' @ (case host req of None \<Rightarrow> ''undefined'' | Some h \<Rightarrow> h)"

definition upgrade_token :: "('c, 'u, 'w) gate_env \<Rightarrow> request \<Rightarrow> thrown + string" where
  "upgrade_token env req =
     (case searchParams_token env (url_text req) (url_base req) of
        Inl e \<Rightarrow> Inl e
      | Inr query \<Rightarrow>
          (let header = map_option (replace_first ''Bearer '' '''') (authorization req)
           in Inr (if truthy query then the query
                   else if truthy header then the header
                   else '''')))"

text \<open>
  The \<^verbatim>\<open>try\<close> block: what it does and, when it throws, the value thrown.
\<close>

definition upgrade_try ::
  "('c, 'u, 'w) gate_env \<Rightarrow> request \<Rightarrow> ('c, 'u, 'w) effect list \<times> thrown option" where
  "upgrade_try env req =
     (case upgrade_token env req of
        Inl e \<Rightarrow> ([], Some e)
      | Inr token \<Rightarrow>
          if token = '''' then
            ([Console NoTokenProvided, SocketWrite unauthorized_challenge, SocketDestroy], None)
          else
            (case getSupabaseClient env token of
               Inl e \<Rightarrow> ([], Some e)
             | Inr client \<Rightarrow>
                 (case authenticateUser env client token of
                    Inl e \<Rightarrow> ([], Some e)
                  | Inr authenticated \<Rightarrow>
                      (case handleUpgrade env req of
                         Inl e \<Rightarrow> ([Console UserAuthenticated], Some e)
                       | Inr None \<Rightarrow> ([Console UserAuthenticated], None)
                       | Inr (Some ws) \<Rightarrow>
                           ([Console UserAuthenticated, Console UpgradeSuccessful,
                             EmitConnection ws
                               \<lparr> user = authenticated, supabase = client,
                                 timestamp = toISOString_now env \<rparr>],
                            None)))))"

text \<open>The \<^verbatim>\<open>catch\<close> block, and the whole handler.\<close>

definition upgrade_catch :: "thrown \<Rightarrow> ('c, 'u, 'w) effect list" where
  "upgrade_catch err =
     [case err of
        ErrorObj message \<Rightarrow>
          if str_includes message ''Authentication failed'' then Console (AuthenticationFailed message)
          else Console (UpgradeHandlerError err)
      | OtherValue \<Rightarrow> Console (UpgradeHandlerError err),
      SocketWrite unauthorized_bare,
      SocketDestroy]"

definition upgrade_handler :: "('c, 'u, 'w) gate_env \<Rightarrow> request \<Rightarrow> ('c, 'u, 'w) effect list" where
  "upgrade_handler env req =
     Console IncomingUpgrade #
     (case upgrade_try env req of
        (effects, None) \<Rightarrow> effects
      | (effects, Some err) \<Rightarrow> effects @ upgrade_catch err)"

text \<open>
  What a client sees of a run: the writes to the socket and its destruction. What the
  orchestrator sees: the \<^verbatim>\<open>connection\<close> events.
\<close>

fun on_wire :: "('c, 'u, 'w) effect \<Rightarrow> bool" where
  "on_wire (SocketWrite s) = True"
| "on_wire SocketDestroy = True"
| "on_wire _ = False"

definition wire :: "('c, 'u, 'w) effect list \<Rightarrow> ('c, 'u, 'w) effect list" where
  "wire effects = filter on_wire effects"

fun connection_events :: "('c, 'u, 'w) effect list \<Rightarrow> ('w \<times> ('c, 'u) upgrade_context) list" where
  "connection_events [] = []"
| "connection_events (EmitConnection ws ctx # es) = (ws, ctx) # connection_events es"
| "connection_events (e # es) = connection_events es"

text \<open>
  The credential as the specification words it: the query parameter when there is one,
  otherwise the \<^verbatim>\<open>authorization\<close> header without a leading \<^verbatim>\<open>Bearer \<close>.
\<close>

definition spec_credential :: "string option \<Rightarrow> string option \<Rightarrow> string" where
  "spec_credential query auth =
     (case query of
        Some t \<Rightarrow> t
      | None \<Rightarrow>
          (case auth of
             None \<Rightarrow> ''''
           | Some h \<Rightarrow> if take 7 h = ''Bearer '' then drop 7 h else h))"

text \<open>
  An HTTP response head: the status line, the header lines and the empty line, each ended
  by CR LF.
\<close>

definition http_response :: "string \<Rightarrow> string list \<Rightarrow> string" where
  "http_response status_line headers = status_line @ crlf @ concat (map (\<lambda>h. h @ crlf) headers) @ crlf"

text \<open>
  An environment for concrete runs: the token is read from a URL of the form
  \<^verbatim>\<open>/?token=...\<close>, a host that starts with a bracket is not a URL, the client is the pair
  of the project URL and the headers, only the token \<^verbatim>\<open>good\<close> authenticates, and the
  handshake completes with connection 1.
\<close>

definition sample_env :: "(string \<times> (string \<times> string) list, string, nat) gate_env" where
  "sample_env =
     \<lparr> searchParams_token =
         (\<lambda>url base. if take 6 base = ''ws://['' then Inl (ErrorObj ''Invalid URL'')
                     else if take 8 url = ''/?token='' then Inr (Some (drop 8 url))
                     else Inr None),
       SUPABASE_URL = Some ''https://project.supabase.co'',
       SUPABASE_KEY = Some ''anon-key'',
       createClient =
         (\<lambda>url key headers.
            case url of
              None \<Rightarrow> Inl (ErrorObj ''supabaseUrl is required.'')
            | Some u \<Rightarrow>
                (case key of
                   None \<Rightarrow> Inl (ErrorObj ''supabaseKey is required.'')
                 | Some k \<Rightarrow> Inr (u, headers))),
       authenticateUser =
         (\<lambda>client token. if token = ''good'' then Inr ''user@example.com''
                         else Inl (ErrorObj ''Authentication failed: invalid token'')),
       handleUpgrade = (\<lambda>req. Inr (Some 1)),
       toISOString_now = ''2025-01-01T00:00:00.000Z'' \<rparr>"

text \<open>
  The same environment with a library that ends the handshake itself, and with one whose
  \<^verbatim>\<open>handleUpgrade\<close> throws.
\<close>

definition aborting_env :: "(string \<times> (string \<times> string) list, string, nat) gate_env" where
  "aborting_env = sample_env\<lparr>handleUpgrade := (\<lambda>req. Inr None)\<rparr>"

definition throwing_env :: "(string \<times> (string \<times> string) list, string, nat) gate_env" where
  "throwing_env =
     sample_env\<lparr>handleUpgrade := (\<lambda>req. Inl (ErrorObj ''handleUpgrade failed''))\<rparr>"

section \<open>ShutdownCoordinator: the \<^verbatim>\<open>SIGINT\<close> listener\<close>

text \<open>
  What the listener itself does when the signal arrives, in order: it starts closing the
  HTTP server, starts closing the WebSocket server, and arms a timer. Each of the three
  leaves a callback behind; nothing is awaited in between.
\<close>

datatype shutdown_action =
    ShutdownLog string
  | CloseHttpServer
  | CloseWebSocketServer
  | SetTimeout nat

definition sigint_listener :: "shutdown_action list" where
  "sigint_listener =
     [ShutdownLog (CHR 0x0A # ''Received SIGINT, shutting down...''),
      ShutdownLog ''Closing HTTP server...'',
      CloseHttpServer,
      ShutdownLog ''Closing WebSocket server...'',
      CloseWebSocketServer,
      SetTimeout 5000]"

text \<open>
  The state the callbacks share: the counter \<open>serversClosed\<close> of the listener's closure and
  the status the process has exited with, if it has.
\<close>

record shutdown_state =
  serversClosed :: nat
  exit_status :: "int option"

definition totalServers :: nat where
  "totalServers = 2"

definition shutdown_start :: shutdown_state where
  "shutdown_start = \<lparr> serversClosed = 0, exit_status = None \<rparr>"

definition checkExit :: "shutdown_state \<Rightarrow> shutdown_state" where
  "checkExit st =
     (let st' = st\<lparr>serversClosed := serversClosed st + 1\<rparr>
      in if totalServers \<le> serversClosed st' then st'\<lparr>exit_status := Some 0\<rparr> else st')"

text \<open>
  The three callbacks. A close callback is called with an error or without one; it logs
  one line or the other and calls \<open>checkExit\<close> in both cases.
\<close>

datatype shutdown_event =
    HttpServerClosed "thrown option"
  | WebSocketServerClosed "thrown option"
  | TimeoutElapsed

fun shutdown_callback :: "shutdown_state \<Rightarrow> shutdown_event \<Rightarrow> shutdown_state" where
  "shutdown_callback st (HttpServerClosed err) = checkExit st"
| "shutdown_callback st (WebSocketServerClosed err) = checkExit st"
| "shutdown_callback st TimeoutElapsed = st\<lparr>exit_status := Some 1\<rparr>"

text \<open>
  The event loop runs the callbacks one at a time, in the order their events arrive, and
  runs none once \<^verbatim>\<open>Deno.exit\<close> was called.
\<close>

definition deliver :: "shutdown_state \<Rightarrow> shutdown_event \<Rightarrow> shutdown_state" where
  "deliver st ev = (if exit_status st = None then shutdown_callback st ev else st)"

definition shutdown_run :: "shutdown_event list \<Rightarrow> shutdown_state" where
  "shutdown_run evs = foldl deliver shutdown_start evs"

text \<open>
  The close reports that arrive before the timer fires, and an event without the error
  its callback was called with.
\<close>

fun is_close_report :: "shutdown_event \<Rightarrow> bool" where
  "is_close_report TimeoutElapsed = False"
| "is_close_report _ = True"

definition reports_before_timeout :: "shutdown_event list \<Rightarrow> nat" where
  "reports_before_timeout evs =
     length (filter is_close_report (takeWhile (\<lambda>e. e \<noteq> TimeoutElapsed) evs))"

fun without_error :: "shutdown_event \<Rightarrow> shutdown_event" where
  "without_error (HttpServerClosed err) = HttpServerClosed None"
| "without_error (WebSocketServerClosed err) = WebSocketServerClosed None"
| "without_error TimeoutElapsed = TimeoutElapsed"

fun is_log :: "shutdown_action \<Rightarrow> bool" where
  "is_log (ShutdownLog s) = True"
| "is_log _ = False"

section \<open>Conversation history: \<^verbatim>\<open>getChatHistory\<close>\<close>

text \<open>
  A row of the table \<^verbatim>\<open>conversations\<close>, with the columns the query names and the two
  that \<^verbatim>\<open>addConversation\<close> writes; \<open>created_at\<close> is a point in time, in milliseconds.
\<close>

record conversation =
  user_id :: string
  personality_key :: "string option"
  created_at :: int
  role :: string
  content :: string

text \<open>
  The query the builder calls put together: the table, the selected columns, the filters
  in the order they were added, the ordering and the limit.
\<close>

datatype query_filter =
    EqUserId string
  | EqPersonalityKey string
  | GteCreatedAt int

record select_query =
  from_table :: string
  select_columns :: string
  filters :: "query_filter list"
  order_created_at_ascending :: "bool option"
  limit_rows :: "nat option"

text \<open>
  What awaiting the query gives: the object \<^verbatim>\<open>{ data, error }\<close> with the rows or with an
  error, or an exception.
\<close>

datatype query_result =
    QueryData "conversation list"
  | QueryError string
  | QueryThrows thrown

text \<open>
  The query of \<^verbatim>\<open>getChatHistory\<close>. \<open>twoHoursAgo\<close> is the time the \<^verbatim>\<open>Date\<close> object gives after
  \<^verbatim>\<open>setHours(getHours() - 2)\<close>.
\<close>

definition chat_history_query :: "int \<Rightarrow> string \<Rightarrow> string option \<Rightarrow> bool \<Rightarrow> select_query" where
  "chat_history_query twoHoursAgo userId personalityKey isDoctor =
     (let query = \<lparr> from_table = ''conversations'', select_columns = ''*'',
                     filters = [EqUserId userId],
                     order_created_at_ascending = Some False,
                     limit_rows = Some 20 \<rparr>;
          query1 = (if truthy personalityKey
                    then query\<lparr>filters := filters query @ [EqPersonalityKey (the personalityKey)]\<rparr>
                    else query);
          query2 = (if isDoctor
                    then query1\<lparr>filters := filters query1 @ [GteCreatedAt twoHoursAgo]\<rparr>
                    else query1)
      in query2)"

text \<open>
  The \<^verbatim>\<open>try\<close> block, which throws the error of the result when there is one, and the
  function with its \<^verbatim>\<open>catch\<close> block. \<open>execute\<close> is the Supabase client running the query.
\<close>

definition getChatHistory_try ::
  "(select_query \<Rightarrow> query_result) \<Rightarrow> int \<Rightarrow> string \<Rightarrow> string option \<Rightarrow> bool
     \<Rightarrow> thrown + conversation list" where
  "getChatHistory_try execute twoHoursAgo userId personalityKey isDoctor =
     (case execute (chat_history_query twoHoursAgo userId personalityKey isDoctor) of
        QueryThrows e \<Rightarrow> Inl e
      | QueryError error \<Rightarrow> Inl (ErrorObj error)
      | QueryData data \<Rightarrow> Inr data)"

definition getChatHistory ::
  "(select_query \<Rightarrow> query_result) \<Rightarrow> int \<Rightarrow> string \<Rightarrow> string option \<Rightarrow> bool
     \<Rightarrow> thrown + conversation list" where
  "getChatHistory execute twoHoursAgo userId personalityKey isDoctor =
     (case getChatHistory_try execute twoHoursAgo userId personalityKey isDoctor of
        Inl e \<Rightarrow> Inr []
      | Inr data \<Rightarrow> Inr data)"

text \<open>
  A store that answers a select query on the rows \<open>table\<close> the way PostgREST does: the rows
  that pass every filter, ordered by \<open>created_at\<close>, cut at the limit.
\<close>

fun passes :: "conversation \<Rightarrow> query_filter \<Rightarrow> bool" where
  "passes row (EqUserId v) = (user_id row = v)"
| "passes row (EqPersonalityKey v) = (personality_key row = Some v)"
| "passes row (GteCreatedAt t) = (t \<le> created_at row)"

definition select_rows :: "conversation list \<Rightarrow> select_query \<Rightarrow> conversation list" where
  "select_rows table q =
     (let matching = filter (\<lambda>row. list_all (passes row) (filters q)) table;
          ordered = (case order_created_at_ascending q of
                       None \<Rightarrow> matching
                     | Some True \<Rightarrow> sort_key created_at matching
                     | Some False \<Rightarrow> sort_key (\<lambda>row. - created_at row) matching)
      in case limit_rows q of None \<Rightarrow> ordered | Some n \<Rightarrow> take n ordered)"

definition sample_table :: "conversation list" where
  "sample_table =
     [\<lparr> user_id = ''u1'', personality_key = Some ''owl'', created_at = 100, role = ''user'', content = ''hi'' \<rparr>,
      \<lparr> user_id = ''u2'', personality_key = Some ''owl'', created_at = 200, role = ''user'', content = ''yo'' \<rparr>,
      \<lparr> user_id = ''u1'', personality_key = Some ''fox'', created_at = 300, role = ''assistant'', content = ''hm'' \<rparr>,
      \<lparr> user_id = ''u1'', personality_key = Some ''owl'', created_at = 400, role = ''assistant'', content = ''ok'' \<rparr>]"

section \<open>FrameEncoder: the loop\<close>

lemma encode_loop_exit:
  "\<not> offset + F \<le> length combined \<Longrightarrow>
     encode_loop F enc combined offset frames s = Some (offset, frames, s)"
  by (subst encode_loop.simps) simp

lemma encode_loop_step:
  "offset + F \<le> length combined \<Longrightarrow>
     encode_loop F enc combined offset frames s =
       (case enc s (subarray combined offset (offset + F)) of
          (Inr opusData, s') \<Rightarrow> encode_loop F enc combined (offset + F) (frames @ [opusData]) s'
        | (Inl e, s') \<Rightarrow> encode_loop F enc combined (offset + F) frames s')"
  by (subst encode_loop.simps) (simp add: Let_def)

text \<open>
  With a frame size of 0 the loop is never left: a call that starts at offset 0 does not
  return. The claims about the frame encoder are therefore stated for \<open>F > 0\<close>.
\<close>

lemma encode_loop_zero:
  assumes "encode_loop F enc combined offset frames s = Some y"
  shows "F = 0 \<longrightarrow> length combined < offset"
proof (rule encode_loop.raw_induct[where
      P = "\<lambda>F enc combined offset frames s y. F = 0 \<longrightarrow> length combined < offset", OF _ assms])
  fix loop :: "nat \<Rightarrow> 'a encoder \<Rightarrow> byte list \<Rightarrow> nat \<Rightarrow> byte list list \<Rightarrow> 'a
     \<Rightarrow> (nat \<times> byte list list \<times> 'a) option"
    and F enc combined offset frames s y
  assume ih: "\<And>F enc combined offset frames s y.
      loop F enc combined offset frames s = Some y \<Longrightarrow> F = 0 \<longrightarrow> length combined < offset"
    and body: "(if offset + F \<le> length combined then
        (let slice = subarray combined offset (offset + F);
             offset' = offset + F
         in case enc s slice of
              (Inr opusData, s') \<Rightarrow> loop F enc combined offset' (frames @ [opusData]) s'
            | (Inl e, s') \<Rightarrow> loop F enc combined offset' frames s')
      else Some (offset, frames, s)) = Some y"
  show "F = 0 \<longrightarrow> length combined < offset"
  proof
    assume z: "F = 0"
    show "length combined < offset"
    proof (rule ccontr)
      assume "\<not> length combined < offset"
      then have le: "offset + F \<le> length combined" using z by simp
      obtain r s' where e: "enc s (subarray combined offset (offset + F)) = (r, s')"
        by (cases "enc s (subarray combined offset (offset + F))")
      have "\<exists>fr. loop F enc combined (offset + F) fr s' = Some y"
        using body le e by (cases r) (auto simp: Let_def)
      then obtain fr where "loop F enc combined (offset + F) fr s' = Some y" by blast
      from ih[OF this] z have "length combined < offset + F" by simp
      with le show False by simp
    qed
  qed
qed

lemma encodePcmChunk_zero: "encodePcmChunk 0 enc st rawPcm = None"
proof (cases "encode_loop 0 enc (fst st @ rawPcm) 0 [] (snd st)")
  case None
  then show ?thesis by (simp add: encodePcmChunk_def)
next
  case (Some y)
  from encode_loop_zero[OF this] show ?thesis by simp
qed

lemma windows_short: "length xs < F \<Longrightarrow> spec_windows F xs = []"
  by (simp add: spec_windows_def)

lemma windows_step:
  assumes "0 < F" "F \<le> length xs"
  shows "spec_windows F xs = take F xs # spec_windows F (drop F xs)"
proof -
  have d: "length xs div F = Suc ((length xs - F) div F)"
    using assms by (simp add: le_div_geq)
  have "map (\<lambda>i. take F (drop (i * F) xs)) [0 ..< Suc ((length xs - F) div F)]
      = take F xs # map (\<lambda>i. take F (drop (i * F) (drop F xs))) [0 ..< (length xs - F) div F]"
    by (simp add: map_upt_Suc add.commute del: upt_Suc)
  then show ?thesis
    by (simp add: spec_windows_def d)
qed

lemma encode_loop_windows:
  assumes "0 < F"
  shows "offset \<le> length combined \<Longrightarrow>
    encode_loop F enc combined offset frames s =
      Some (offset + F * ((length combined - offset) div F),
            frames @ fst (spec_encode_frames enc s (spec_windows F (drop offset combined))),
            snd (spec_encode_frames enc s (spec_windows F (drop offset combined))))"
proof (induction "length combined - offset" arbitrary: offset frames s rule: less_induct)
  case less
  show ?case
  proof (cases "offset + F \<le> length combined")
    case False
    then have lt: "length combined - offset < F"
      using assms by arith
    then have "(length combined - offset) div F = 0" "length (drop offset combined) < F"
      by simp_all
    then show ?thesis
      using False by (simp add: encode_loop_exit windows_short)
  next
    case True
    let ?w = "subarray combined offset (offset + F)"
    have w: "spec_windows F (drop offset combined) = ?w # spec_windows F (drop (offset + F) combined)"
      using True assms by (simp add: windows_step subarray_def add.commute)
    have m: "length combined - (offset + F) < length combined - offset"
      using True assms by simp
    have le: "offset + F \<le> length combined" by (rule True)
    have d: "(length combined - offset) div F = Suc ((length combined - (offset + F)) div F)"
      using True assms by (simp add: le_div_geq)
    obtain r s' where e: "enc s ?w = (r, s')" by (cases "enc s ?w")
    show ?thesis
    proof (cases r)
      case (Inl x)
      then show ?thesis
        using e less(1)[OF m le, of frames s'] w d
        by (simp add: encode_loop_step[OF True])
    next
      case (Inr opusData)
      then show ?thesis
        using e less(1)[OF m le, of "frames @ [opusData]" s'] w d
        by (simp add: encode_loop_step[OF True] split: prod.splits)
    qed
  qed
qed

lemma encodePcmChunk_windows:
  assumes "0 < F"
  shows "encodePcmChunk F enc st rawPcm =
    Some (fst (spec_encode_frames enc (snd st) (spec_windows F (fst st @ rawPcm))),
          drop (F * (length (fst st @ rawPcm) div F)) (fst st @ rawPcm),
          snd (spec_encode_frames enc (snd st) (spec_windows F (fst st @ rawPcm))))"
  using encode_loop_windows[OF assms, of 0 "fst st @ rawPcm" enc "[]" "snd st"]
  by (simp add: encodePcmChunk_def split: prod.splits)

lemma encodePcmChunk_offset_eq:
  assumes "0 < F"
  shows "encodePcmChunk_offset F enc st rawPcm = Some (F * (length (fst st @ rawPcm) div F))"
  using encode_loop_windows[OF assms, of 0 "fst st @ rawPcm" enc "[]" "snd st"]
  by (simp add: encodePcmChunk_offset_def)

lemma length_drop_multiple: "length (drop (F * (length xs div F)) xs) = length xs mod F"
  by (simp add: minus_mult_div_eq_mod)

lemma leftover_bound:
  "0 < F \<Longrightarrow> length (drop (F * (length xs div F)) xs) < F"
  using mod_less_divisor[of F "length xs"] by (simp add: minus_mult_div_eq_mod)

lemma windows_append:
  assumes "0 < F"
  shows "spec_windows F (xs @ ys) = spec_windows F xs @ spec_windows F (drop (F * (length xs div F)) xs @ ys)"
proof (induction "length xs" arbitrary: xs rule: less_induct)
  case less
  show ?case
  proof (cases "F \<le> length xs")
    case False
    then have "length xs div F = 0" by simp
    with False show ?thesis by (simp add: windows_short)
  next
    case True
    have d: "length xs div F = Suc ((length xs - F) div F)"
      using True assms by (simp add: le_div_geq)
    have m: "length (drop F xs) < length xs" using True assms by simp
    have "spec_windows F (xs @ ys) = take F xs # spec_windows F (drop F xs @ ys)"
      using True assms by (simp add: windows_step)
    also have "spec_windows F (drop F xs @ ys) =
        spec_windows F (drop F xs) @ spec_windows F (drop (F * (length (drop F xs) div F)) (drop F xs) @ ys)"
      by (rule less[OF m])
    finally show ?thesis
      using True assms by (simp add: windows_step d add.commute)
  qed
qed

lemma encode_frames_append:
  "spec_encode_frames enc s (a @ b) =
     (fst (spec_encode_frames enc s a) @ fst (spec_encode_frames enc (snd (spec_encode_frames enc s a)) b),
      snd (spec_encode_frames enc (snd (spec_encode_frames enc s a)) b))"
  by (induction a arbitrary: s) (auto split: prod.splits sum.splits)

lemma div_carry: "(a + b) div F = a div F + (a mod F + b) div (F::nat)"
proof (cases "F = 0")
  case True
  then show ?thesis by simp
next
  case False
  have "a div F * F + a mod F = a" by (rule div_mult_mod_eq)
  then have "a + b = (a mod F + b) + (a div F) * F" by linarith
  then have "(a + b) div F = ((a mod F + b) + (a div F) * F) div F"
    by (rule arg_cong)
  also have "\<dots> = a div F + (a mod F + b) div F"
    by (rule div_mult_self1[OF False])
  finally show ?thesis .
qed

lemma append_all_eq:
  assumes "0 < F"
  shows "length lo < F \<Longrightarrow> append_all F enc (lo, s) chunks =
    Some (F * (length (lo @ concat chunks) div F),
          fst (spec_encode_frames enc s (spec_windows F (lo @ concat chunks))),
          drop (F * (length (lo @ concat chunks) div F)) (lo @ concat chunks),
          snd (spec_encode_frames enc s (spec_windows F (lo @ concat chunks))))"
proof (induction chunks arbitrary: lo s)
  case Nil
  then show ?case by (simp add: windows_short)
next
  case (Cons c cs)
  let ?a = "lo @ c"
  let ?k = "F * (length ?a div F)"
  let ?lo1 = "drop ?k ?a"
  let ?s1 = "snd (spec_encode_frames enc s (spec_windows F ?a))"
  let ?b = "concat cs"
  have k: "?k \<le> length ?a" by simp
  have cat: "?lo1 @ ?b = drop ?k (?a @ ?b)" using k by simp
  have len1: "length ?lo1 = length ?a mod F" by (rule length_drop_multiple)
  have sum: "?k + F * (length (?lo1 @ ?b) div F) = F * (length (?a @ ?b) div F)"
  proof -
    have "length (?a @ ?b) div F = length ?a div F + (length ?a mod F + length ?b) div F"
      unfolding length_append[of ?a ?b] by (rule div_carry)
    moreover have "length (?lo1 @ ?b) = length ?a mod F + length ?b"
      using len1 by simp
    ultimately show ?thesis
      by (simp only: distrib_left)
  qed
  have w: "spec_windows F (?a @ ?b) = spec_windows F ?a @ spec_windows F (?lo1 @ ?b)"
    by (rule windows_append[OF assms])
  have dr: "drop (F * (length (?lo1 @ ?b) div F)) (?lo1 @ ?b)
          = drop (F * (length (?a @ ?b) div F)) (?a @ ?b)"
  proof -
    have "F * (length (?lo1 @ ?b) div F) + ?k = F * (length (?a @ ?b) div F)"
      using sum by linarith
    then show ?thesis
      using drop_drop[of "F * (length (?lo1 @ ?b) div F)" ?k "?a @ ?b"] by (simp only: cat)
  qed
  have ih: "append_all F enc (?lo1, ?s1) cs =
    Some (F * (length (?lo1 @ ?b) div F),
          fst (spec_encode_frames enc ?s1 (spec_windows F (?lo1 @ ?b))),
          drop (F * (length (?lo1 @ ?b) div F)) (?lo1 @ ?b),
          snd (spec_encode_frames enc ?s1 (spec_windows F (?lo1 @ ?b))))"
    by (rule Cons.IH[OF leftover_bound[OF assms]])
  have step: "append_all F enc (lo, s) (c # cs) =
    Some (?k + F * (length (?lo1 @ ?b) div F),
          fst (spec_encode_frames enc s (spec_windows F ?a)) @ fst (spec_encode_frames enc ?s1 (spec_windows F (?lo1 @ ?b))),
          drop (F * (length (?lo1 @ ?b) div F)) (?lo1 @ ?b),
          snd (spec_encode_frames enc ?s1 (spec_windows F (?lo1 @ ?b))))"
    by (simp only: append_all.simps encodePcmChunk_offset_eq[OF assms]
          encodePcmChunk_windows[OF assms] fst_conv snd_conv prod.case option.case option.map ih)
  have fr: "spec_encode_frames enc s (spec_windows F (?a @ ?b)) =
      (fst (spec_encode_frames enc s (spec_windows F ?a)) @ fst (spec_encode_frames enc ?s1 (spec_windows F (?lo1 @ ?b))),
       snd (spec_encode_frames enc ?s1 (spec_windows F (?lo1 @ ?b))))"
    by (simp only: w encode_frames_append)
  have "lo @ concat (c # cs) = ?a @ ?b" by simp
  then show ?case
    by (simp only: step sum dr fr fst_conv snd_conv)
qed

lemma encode_frames_each:
  "spec_encode_frames enc s ws = (spec_produced (fst (spec_encode_each enc s ws)), snd (spec_encode_each enc s ws))"
  by (induction ws arbitrary: s) (auto split: prod.splits sum.splits)

lemma length_encode_each: "length (fst (spec_encode_each enc s ws)) = length ws"
proof (induction ws arbitrary: s)
  case Nil
  show ?case by simp
next
  case (Cons w ws)
  obtain r s' where e: "enc s w = (r, s')" by (cases "enc s w")
  obtain rs s'' where f: "spec_encode_each enc s' ws = (rs, s'')" by (cases "spec_encode_each enc s' ws")
  show ?case using Cons.IH[of s'] e f by simp
qed

lemma length_windows: "length (spec_windows F xs) = length xs div F"
  by (simp add: spec_windows_def)

lemma tts_step_inv:
  assumes "0 < F"
  shows "\<exists>st'. tts_step F enc st x = Some st' \<and> length (fst st') < F"
proof (cases x)
  case (Append rawPcm)
  then show ?thesis
    using leftover_bound[OF assms, of "fst st @ rawPcm"]
    by (simp add: encodePcmChunk_windows[OF assms] del: length_append drop_append)
next
  case Reset
  then show ?thesis using assms by (simp add: reset_def)
qed

section \<open>FrameEncoder: claims\<close>

text \<open>
  Claim C4. With a frame size \<open>F > 0\<close>, a fresh frame encoder has fewer than \<open>F\<close> leftover
  bytes, every run of \<^verbatim>\<open>encodePcmChunk\<close> and \<^verbatim>\<open>reset\<close> calls returns, from whatever state
  it starts, and after each call of the run the leftover is shorter than \<open>F\<close> (and, being
  a length, not negative).
\<close>

theorem leftover_invariant:
  assumes "0 < F"
  shows "length (fst (createTtsBuffer s)) < F \<and>
         (\<exists>sts. tts_run F enc st ops = Some sts \<and> length sts = length ops \<and>
                (\<forall>st' \<in> set sts. length (fst st') < F))"
proof -
  have "\<exists>sts. tts_run F enc st ops = Some sts \<and> length sts = length ops \<and>
                (\<forall>st' \<in> set sts. length (fst st') < F)"
  proof (induction ops arbitrary: st)
    case Nil
    show ?case by simp
  next
    case (Cons x xs)
    obtain st1 where s1: "tts_step F enc st x = Some st1" "length (fst st1) < F"
      using tts_step_inv[OF assms] by blast
    obtain sts where r: "tts_run F enc st1 xs = Some sts" "length sts = length xs"
        "\<forall>st' \<in> set sts. length (fst st') < F"
      using Cons.IH by blast
    show ?case using s1 r by simp
  qed
  then show ?thesis using assms by (simp add: createTtsBuffer_def)
qed


theorem leftover_invariant_witness:
  "(0::nat) < 4 \<and>
   tts_run 4 sample_encoder (createTtsBuffer 0)
     [Append [1, 2, 3, 4, 5, 6], Reset, Append [7], Append [0, 0, 0, 9, 9]]
     = Some [([5, 6], 1), ([], 1), ([7], 1), ([9, 9], 2)] \<and>
   map (\<lambda>st'. length (fst st')) [([5, 6 :: byte], 1 :: nat), ([], 1), ([7], 1), ([9, 9], 2)] = [2, 0, 1, 2]"
proof -
  have run: "tts_run 4 sample_encoder (createTtsBuffer 0)
     [Append [1, 2, 3, 4, 5, 6], Reset, Append [7], Append [0, 0, 0, 9, 9]]
     = Some [([5, 6], 1), ([], 1), ([7], 1), ([9, 9], 2)]"
    by code_simp
  have pos: "(0::nat) < 4" by simp
  from leftover_invariant[OF pos, of 0 sample_encoder "createTtsBuffer 0"
      "[Append [1, 2, 3, 4, 5, 6], Reset, Append [7], Append [0, 0, 0, 9, 9]]"]
  show ?thesis unfolding run by simp
qed

text \<open>
  Claim C5. With \<open>F > 0\<close>, one \<^verbatim>\<open>encodePcmChunk\<close> call returns; the encoder is called on
  every complete window of \<open>leftover @ rawPcm\<close>, in order, whether or not it threw on an
  earlier one; the frames returned are the packets of exactly the calls that did not
  throw, in window order; and the new leftover starts after the last complete window,
  whatever the encoder did.
\<close>

theorem encode_failure_drops_one_frame:
  assumes "0 < F"
  shows "\<exists>outcomes s'.
           spec_encode_each enc s (spec_windows F (leftover @ rawPcm)) = (outcomes, s') \<and>
           length outcomes = length (leftover @ rawPcm) div F \<and>
           encodePcmChunk F enc (leftover, s) rawPcm =
             Some (spec_produced outcomes,
                   drop (F * (length (leftover @ rawPcm) div F)) (leftover @ rawPcm), s')"
proof -
  obtain outcomes s' where e: "spec_encode_each enc s (spec_windows F (leftover @ rawPcm)) = (outcomes, s')"
    by (cases "spec_encode_each enc s (spec_windows F (leftover @ rawPcm))")
  have "length outcomes = length (spec_windows F (leftover @ rawPcm))"
    using length_encode_each[of enc s "spec_windows F (leftover @ rawPcm)"] e by simp
  then have n: "length outcomes = length (leftover @ rawPcm) div F"
    by (simp only: length_windows)
  have "encodePcmChunk F enc (leftover, s) rawPcm =
             Some (spec_produced outcomes,
                   drop (F * (length (leftover @ rawPcm) div F)) (leftover @ rawPcm), s')"
    using e by (simp only: encodePcmChunk_windows[OF assms] encode_frames_each fst_conv snd_conv)
  with e n show ?thesis by blast
qed

theorem encode_failure_drops_one_frame_witness:
  "(0::nat) < 2 \<and>
   spec_encode_each sample_encoder 0 (spec_windows 2 ([7] @ [1, 0, 5, 4, 4, 9])) =
     ([Inr [7, 2], Inl (ErrorObj ''bad frame''), Inr [4, 2]], 3) \<and>
   encodePcmChunk 2 sample_encoder ([7], 0) [1, 0, 5, 4, 4, 9] = Some ([[7, 2], [4, 2]], [9], 3)"
proof -
  have each: "spec_encode_each sample_encoder 0 (spec_windows 2 ([7] @ [1, 0, 5, 4, 4, 9])) =
     ([Inr [7, 2], Inl (ErrorObj ''bad frame''), Inr [4, 2]], 3)"
    by code_simp
  have pos: "(0::nat) < 2" by simp
  from encode_failure_drops_one_frame[OF pos, of sample_encoder 0 "[7]" "[1, 0, 5, 4, 4, 9]"]
  show ?thesis unfolding each by simp
qed

text \<open>
  Claim C1. With \<open>F > 0\<close>, feeding a fresh frame encoder the pieces \<open>chunks\<close>, one call
  each, puts \<open>F * (n div F)\<close> bytes into complete windows and leaves \<open>n mod F\<close> bytes,
  where \<open>n\<close> is the number of bytes supplied; every other way of cutting as many bytes
  into pieces gives the same two totals, and one call on the whole input gives the same
  frames and the same leftover.
\<close>

theorem chunking_insensitive:
  assumes "0 < F"
  shows "\<exists>frames leftover s'.
           append_all F enc (createTtsBuffer s) chunks =
             Some (F * (length (concat chunks) div F), frames, leftover, s') \<and>
           length leftover = length (concat chunks) mod F \<and>
           (\<forall>chunks'. length (concat chunks') = length (concat chunks) \<longrightarrow>
              (\<exists>frames' leftover' s''.
                 append_all F enc (createTtsBuffer s) chunks' =
                   Some (F * (length (concat chunks) div F), frames', leftover', s'') \<and>
                 length leftover' = length (concat chunks) mod F)) \<and>
           append_all F enc (createTtsBuffer s) [concat chunks] =
             Some (F * (length (concat chunks) div F), frames, leftover, s')"
proof -
  have e: "length ([] :: byte list) < F" using assms by simp
  note eq = append_all_eq[OF assms e, of enc s, simplified append_Nil]
  have one: "concat [concat chunks] = concat chunks" by simp
  show ?thesis
    unfolding createTtsBuffer_def
    by (simp only: eq one length_drop_multiple) (auto simp: minus_mult_div_eq_mod)
qed

theorem chunking_insensitive_witness:
  "(0::nat) < 4 \<and>
   append_all 4 sample_encoder (createTtsBuffer 0) [[1, 2, 3], [4, 5, 6, 7, 8, 9], [], [10]]
     = Some (8, [[1, 4], [5, 4]], [9, 10], 2) \<and>
   append_all 4 sample_encoder (createTtsBuffer 0) [[1, 2, 3, 4, 5, 6, 7, 8, 9, 10]]
     = Some (8, [[1, 4], [5, 4]], [9, 10], 2) \<and>
   length (concat [[1, 2, 3], [4, 5, 6, 7, 8, 9], [], [10 :: byte]]) = 10"
proof -
  have run: "append_all 4 sample_encoder (createTtsBuffer 0) [[1, 2, 3], [4, 5, 6, 7, 8, 9], [], [10]]
     = Some (8, [[1, 4], [5, 4]], [9, 10], 2)"
    by code_simp
  have pos: "(0::nat) < 4" by simp
  from chunking_insensitive[OF pos, of sample_encoder 0 "[[1, 2, 3], [4, 5, 6, 7, 8, 9], [], [10]]"]
  show ?thesis unfolding run by simp
qed

section \<open>JavaScript numbers: the overflow threshold and some values\<close>

lemma double_overflow_pow2: "double_overflow = 2 ^ 1024"
  by (simp add: double_overflow_def)

text \<open>
  The doubles of 0.1 and of 1/3, the sum \<^verbatim>\<open>0.1 + 0.2\<close>, which is 0.30000000000000004, and
  the product \<^verbatim>\<open>10 * 0.3\<close>, which rounding makes 3.
\<close>

lemma double_examples:
  "round_double (1 / 10) = Fin (3602879701896397 / 36028797018963968)"
  "fdiv (Fin 1) (Fin 3) = Fin (6004799503160661 / 18014398509481984)"
  "fadd (round_double (1 / 10)) (round_double (2 / 10)) = Fin (1351079888211149 / 4503599627370496)"
  "fmul (Fin 10) (round_double (3 / 10)) = Fin 3"
  by code_simp+

section \<open>SampleFilter: the loop and the claim\<close>

lemma clip_eq: "Math_max (Fin (- 32768)) (Math_min (Fin 32767) x) = spec_clip x"
  by (cases x) (auto simp: Math_max_def Math_min_def spec_clip_def)

lemma spec_filter_append:
  "spec_filter st (a @ b) =
     (case spec_filter st a of (st1, a') \<Rightarrow>
        (case spec_filter st1 b of (st2, b') \<Rightarrow> (st2, a' @ b')))"
  by (induction a arbitrary: st) (auto split: prod.splits)

lemma processAudio_loop_spec:
  "i \<le> length samples \<Longrightarrow>
     processAudio_loop this samples i =
       (case spec_filter this (drop i samples) of (this', ys) \<Rightarrow> (this', take i samples @ ys))"
proof (induction this samples i rule: processAudio_loop.induct)
  case (1 this samples i)
  show ?case
  proof (cases "i < length samples")
    case False
    with "1.prems" have "i = length samples" by simp
    then show ?thesis by (subst processAudio_loop.simps) simp
  next
    case True
    obtain st' y where s: "spec_filter_sample this (samples ! i) = (st', y)"
      by (cases "spec_filter_sample this (samples ! i)")
    have d: "drop i samples = samples ! i # drop (Suc i) samples"
      using True by (simp add: Cons_nth_drop_Suc)
    have d': "drop (Suc i) (samples[i := y]) = drop (Suc i) samples" by simp
    have t': "take (Suc i) (samples[i := y]) = take i samples @ [y]"
      using True by (simp add: take_Suc_conv_app_nth)
    have le: "Suc i \<le> length (samples[i := y])" using True by simp
    have step: "processAudio_loop this samples i = processAudio_loop st' (samples[i := y]) (Suc i)"
      using True s
      by (subst processAudio_loop.simps) (simp add: Let_def spec_filter_sample_def clip_eq)
    have ih: "processAudio_loop st' (samples[i := y]) (Suc i) =
       (case spec_filter st' (drop (Suc i) (samples[i := y])) of
          (this', ys) \<Rightarrow> (this', take (Suc i) (samples[i := y]) @ ys))"
      using "1.IH"[OF True refl refl refl refl refl refl refl refl refl refl] s le True
      by (simp add: Let_def spec_filter_sample_def clip_eq)
    show ?thesis
      unfolding step ih d d' t' using s by (simp split: prod.splits)
  qed
qed

lemma processAudioInPlace_spec: "processAudioInPlace this samples = spec_filter this samples"
  using processAudio_loop_spec[of 0 samples this]
  by (simp add: processAudioInPlace_def split: prod.splits)

lemma boost_loop_map:
  "i \<le> length samples \<Longrightarrow>
     boost_loop safeFactor samples i =
       take i samples @ map (\<lambda>s. to_int16 (spec_clip (fmul (num_of_int16 s) safeFactor))) (drop i samples)"
proof (induction safeFactor samples i rule: boost_loop.induct)
  case (1 safeFactor samples i)
  show ?case
  proof (cases "i < length samples")
    case False
    with "1.prems" have "i = length samples" by simp
    then show ?thesis by (subst boost_loop.simps) simp
  next
    case True
    let ?y = "to_int16 (spec_clip (fmul (num_of_int16 (samples ! i)) safeFactor))"
    have d: "drop i samples = samples ! i # drop (Suc i) samples"
      using True by (simp add: Cons_nth_drop_Suc)
    have d': "drop (Suc i) (samples[i := ?y]) = drop (Suc i) samples" by simp
    have t': "take (Suc i) (samples[i := ?y]) = take i samples @ [?y]"
      using True by (simp add: take_Suc_conv_app_nth)
    have le: "Suc i \<le> length (samples[i := ?y])" using True by simp
    have step: "boost_loop safeFactor samples i = boost_loop safeFactor (samples[i := ?y]) (Suc i)"
      using True by (subst boost_loop.simps) (simp add: Let_def clip_eq)
    have ih: "boost_loop safeFactor (samples[i := ?y]) (Suc i) =
        take (Suc i) (samples[i := ?y]) @
        map (\<lambda>s. to_int16 (spec_clip (fmul (num_of_int16 s) safeFactor))) (drop (Suc i) (samples[i := ?y]))"
      using "1.IH"[OF True refl refl] le by (simp add: clip_eq)
    show ?thesis
      unfolding step ih d d' t' by simp
  qed
qed

lemma spec_filter_alphas:
  "highpassAlpha (fst (spec_filter st xs)) = highpassAlpha st \<and>
   lowpassAlpha (fst (spec_filter st xs)) = lowpassAlpha st \<and>
   length (snd (spec_filter st xs)) = length xs"
proof (induction xs arbitrary: st)
  case Nil
  show ?case by simp
next
  case (Cons x xs)
  obtain st' y where s: "spec_filter_sample st x = (st', y)"
    by (cases "spec_filter_sample st x")
  then have a: "highpassAlpha st' = highpassAlpha st" "lowpassAlpha st' = lowpassAlpha st"
    by (auto simp: spec_filter_sample_def Let_def)
  obtain st'' ys where r: "spec_filter st' xs = (st'', ys)"
    by (cases "spec_filter st' xs")
  show ?case using Cons.IH[of st'] s a r by simp
qed

text \<open>
  Claim C2. \<^verbatim>\<open>processAudioInPlace\<close> returns, for every filter state and every buffer, the
  state and the samples that the four steps of the specification give when applied to
  each sample in order; it writes as many samples as it read and leaves the two
  coefficients unchanged; calling it on one buffer and then on a second one, with the
  state the first call left, gives what one call on both buffers gives; and the
  constructor sets the coefficients to \<open>1 / (1 + tan(\<pi> * 300 / Fs))\<close> and
  \<open>tan(\<pi> * 3500 / Fs) / (1 + tan(\<pi> * 3500 / Fs))\<close> and the three state variables to 0.
\<close>

theorem audio_filter_refines_spec:
  "processAudioInPlace this samples = spec_filter this samples \<and>
   processAudioInPlace this (a @ b) =
     (case processAudioInPlace this a of
        (this1, a') \<Rightarrow> (case processAudioInPlace this1 b of (this2, b') \<Rightarrow> (this2, a' @ b'))) \<and>
   highpassAlpha (fst (processAudioInPlace this samples)) = highpassAlpha this \<and>
   lowpassAlpha (fst (processAudioInPlace this samples)) = lowpassAlpha this \<and>
   length (snd (processAudioInPlace this samples)) = length samples \<and>
   AudioFilter_new Math_tan MIC_SAMPLE_RATE (Some Fs) =
     \<lparr> highpassAlpha = spec_highpassAlpha Math_tan Fs,
       lowpassAlpha = spec_lowpassAlpha Math_tan Fs,
       prevInputHighpass = Fin 0, prevOutputHighpass = Fin 0, prevOutputLowpass = Fin 0 \<rparr> \<and>
   AudioFilter_new Math_tan MIC_SAMPLE_RATE None = AudioFilter_new Math_tan MIC_SAMPLE_RATE (Some MIC_SAMPLE_RATE)"
proof -
  have 1: "processAudioInPlace this (a @ b) =
     (case processAudioInPlace this a of
        (this1, a') \<Rightarrow> (case processAudioInPlace this1 b of (this2, b') \<Rightarrow> (this2, a' @ b')))"
    by (simp only: processAudioInPlace_spec spec_filter_append)
  have 2: "AudioFilter_new Math_tan MIC_SAMPLE_RATE (Some Fs) =
     \<lparr> highpassAlpha = spec_highpassAlpha Math_tan Fs,
       lowpassAlpha = spec_lowpassAlpha Math_tan Fs,
       prevInputHighpass = Fin 0, prevOutputHighpass = Fin 0, prevOutputLowpass = Fin 0 \<rparr>"
    by (simp add: AudioFilter_new_def spec_highpassAlpha_def spec_lowpassAlpha_def Let_def)
  have 3: "AudioFilter_new Math_tan MIC_SAMPLE_RATE None = AudioFilter_new Math_tan MIC_SAMPLE_RATE (Some MIC_SAMPLE_RATE)"
    by (simp add: AudioFilter_new_def Let_def)
  show ?thesis
    using 1 2 3 spec_filter_alphas[of this samples] by (simp add: processAudioInPlace_spec)
qed

lemma audio_filter_example:
  "processAudioInPlace
     \<lparr> highpassAlpha = Fin (1 / 2), lowpassAlpha = Fin (1 / 2),
       prevInputHighpass = Fin 0, prevOutputHighpass = Fin 0, prevOutputLowpass = Fin 0 \<rparr>
     [1000, - 1000, 30000]
   = (\<lparr> highpassAlpha = Fin (1 / 2), lowpassAlpha = Fin (1 / 2),
        prevInputHighpass = Fin 30000, prevOutputHighpass = Fin 15125,
        prevOutputLowpass = Fin (14875 / 2) \<rparr>,
      [2000, - 2000, 32767])"
  by code_simp

section \<open>VolumeShaper: claims\<close>

lemma boost_zero_factor:
  "spec_boost_sample (Fin 0) s = 0" "spec_boost_sample (Fin (- 1)) s = 0"
proof -
  have m: "Math_max (Fin 0) (Fin 0) = Fin 0" "Math_max (Fin 0) (Fin (- 1)) = Fin 0"
    by (simp_all add: Math_max_def)
  have z: "fmul (Fin q) (Fin 0) = (if q < 0 then NegZero else Fin 0)" for q
    by (simp add: fmul_def)
  have c: "to_int16 (spec_clip NegZero) = 0" "to_int16 (spec_clip (Fin 0)) = 0"
    by (simp_all add: spec_clip_def)
  show "spec_boost_sample (Fin 0) s = 0" "spec_boost_sample (Fin (- 1)) s = 0"
    by (simp_all add: spec_boost_sample_def m z c num_of_int16_def)
qed

lemma boost_map: "boostTtsVolumeInPlace samples (Some factor) = map (spec_boost_sample factor) samples"
  using boost_loop_map[of 0 samples "Math_max (Fin 0) factor"]
  by (simp add: boostTtsVolumeInPlace_def spec_boost_sample_def)

text \<open>
  Claim C8. For every buffer and every factor, \<^verbatim>\<open>boostTtsVolumeInPlace\<close> writes back, for
  each sample, the truncation of the clipped product of the sample and \<open>max(0, factor)\<close>;
  a missing factor is 2.0; the sample 20000 with the factor 2.0 becomes 32767; and the
  factor \<open>- 1\<close> gives the buffer the factor 0 gives: all zeros.
\<close>

theorem boost_clamps_and_clips:
  "boostTtsVolumeInPlace samples (Some factor) = map (spec_boost_sample factor) samples \<and>
   boostTtsVolumeInPlace samples None = boostTtsVolumeInPlace samples (Some (Fin 2)) \<and>
   boostTtsVolumeInPlace [20000] (Some (Fin 2)) = [32767] \<and>
   boostTtsVolumeInPlace samples (Some (Fin (- 1))) = boostTtsVolumeInPlace samples (Some (Fin 0)) \<and>
   boostTtsVolumeInPlace samples (Some (Fin (- 1))) = replicate (length samples) 0"
proof -
  have 1: "boostTtsVolumeInPlace samples None = boostTtsVolumeInPlace samples (Some (Fin 2))"
    by (simp add: boostTtsVolumeInPlace_def)
  have 2: "boostTtsVolumeInPlace [20000] (Some (Fin 2)) = [32767]"
    by code_simp
  have 3: "map (spec_boost_sample (Fin (- 1))) samples = replicate (length samples) 0"
    by (induction samples) (simp_all add: boost_zero_factor)
  have 4: "map (spec_boost_sample (Fin 0)) samples = replicate (length samples) 0"
    by (induction samples) (simp_all add: boost_zero_factor)
  show ?thesis
    using 1 2 3 4 by (simp add: boost_map)
qed

section \<open>ConnectionGate: claims\<close>

lemma replace_first_prefix: "replace_first pat rep (pat @ r) = rep @ r"
proof (cases "pat @ r")
  case Nil
  then show ?thesis by simp
next
  case (Cons a list)
  have "take (length pat) (pat @ r) = pat" "drop (length pat) (pat @ r) = r"
    by simp_all
  then show ?thesis unfolding Cons by simp
qed

lemma upgrade_handler_no_token:
  assumes "upgrade_token env req = Inr []"
  shows "upgrade_handler env req =
    [Console IncomingUpgrade, Console NoTokenProvided, SocketWrite unauthorized_challenge, SocketDestroy]"
  using assms by (simp add: upgrade_handler_def upgrade_try_def)

lemma upgrade_handler_throws:
  fixes env :: "('c, 'u, 'w) gate_env"
  assumes "upgrade_token env req = Inr token" "token \<noteq> []"
    and "getSupabaseClient env token = Inl err \<or>
         (\<exists>client. getSupabaseClient env token = Inr client \<and>
            (authenticateUser env client token = Inl err \<or>
             (\<exists>authenticated. authenticateUser env client token = Inr authenticated \<and>
                handleUpgrade env req = Inl err)))"
  shows "\<exists>logs. upgrade_handler env req = Console IncomingUpgrade # map Console logs @
           [SocketWrite unauthorized_bare, SocketDestroy]"
proof -
  have "\<exists>l. (upgrade_catch err :: ('c, 'u, 'w) effect list) =
          [Console l, SocketWrite unauthorized_bare, SocketDestroy]"
    by (auto simp: upgrade_catch_def split: thrown.splits)
  then obtain l where l: "(upgrade_catch err :: ('c, 'u, 'w) effect list) =
          [Console l, SocketWrite unauthorized_bare, SocketDestroy]"
    by blast
  from assms(3) consider
      (client) "getSupabaseClient env token = Inl err"
    | (auth) client where "getSupabaseClient env token = Inr client"
        "authenticateUser env client token = Inl err"
    | (upgrade) client authenticated where "getSupabaseClient env token = Inr client"
        "authenticateUser env client token = Inr authenticated" "handleUpgrade env req = Inl err"
    by blast
  then show ?thesis
  proof cases
    case client
    then have "upgrade_handler env req = Console IncomingUpgrade # map Console [l] @
           [SocketWrite unauthorized_bare, SocketDestroy]"
      using assms(1,2) l by (simp add: upgrade_handler_def upgrade_try_def)
    then show ?thesis by blast
  next
    case auth
    then have "upgrade_handler env req = Console IncomingUpgrade # map Console [l] @
           [SocketWrite unauthorized_bare, SocketDestroy]"
      using assms(1,2) l by (simp add: upgrade_handler_def upgrade_try_def)
    then show ?thesis by blast
  next
    case upgrade
    then have "upgrade_handler env req = Console IncomingUpgrade # map Console [UserAuthenticated, l] @
           [SocketWrite unauthorized_bare, SocketDestroy]"
      using assms(1,2) l by (simp add: upgrade_handler_def upgrade_try_def)
    then show ?thesis by blast
  qed
qed

lemma wire_console: "wire (map Console logs @ es) = wire es"
  by (induction logs) (simp_all add: wire_def)

lemma connection_events_console: "connection_events (map Console logs @ es) = connection_events es"
  by (induction logs) simp_all

text \<open>
  Claim C3, as stated, at a request with a valid token that authenticates: the client is
  built, the user is authenticated, the WebSocket library ends the handshake without
  calling the callback, and no \<^verbatim>\<open>connection\<close> event is emitted. When \<^verbatim>\<open>handleUpgrade\<close>
  throws instead, the \<^verbatim>\<open>catch\<close> block answers 401 and no event is emitted either.
\<close>

theorem admission_needs_completed_handshake_counterexample:
  "upgrade_token aborting_env
     \<lparr> req_url = Some ''/?token=good'', host = Some ''localhost:8080'', authorization = None \<rparr>
     = Inr ''good'' \<and>
   getSupabaseClient aborting_env ''good''
     = Inr (''https://project.supabase.co'', [(''Authorization'', ''Bearer good'')]) \<and>
   authenticateUser aborting_env
     (''https://project.supabase.co'', [(''Authorization'', ''Bearer good'')]) ''good''
     = Inr ''user@example.com'' \<and>
   connection_events (upgrade_handler aborting_env
     \<lparr> req_url = Some ''/?token=good'', host = Some ''localhost:8080'', authorization = None \<rparr>)
     = [] \<and>
   upgrade_handler throwing_env
     \<lparr> req_url = Some ''/?token=good'', host = Some ''localhost:8080'', authorization = None \<rparr>
     = [Console IncomingUpgrade, Console UserAuthenticated,
        Console (UpgradeHandlerError (ErrorObj ''handleUpgrade failed'')),
        SocketWrite unauthorized_bare, SocketDestroy]"
  by (simp add: aborting_env_def throwing_env_def sample_env_def upgrade_token_def url_text_def
      url_base_def getSupabaseClient_def upgrade_handler_def upgrade_try_def upgrade_catch_def)

text \<open>
  Claim C3, amended. When the URL parses, the token is not empty, the client is built,
  the user is authenticated and the library completes the handshake with the connection
  \<open>ws\<close>, the handler emits exactly one \<^verbatim>\<open>connection\<close> event, writes nothing to the socket
  and does not destroy it. The event carries \<open>ws\<close> and a new context made of the
  authenticated user, the client that was created with the header
  \<^verbatim>\<open>Authorization: Bearer <token>\<close> for the presented token, and the time read when the
  callback runs. The context has these three fields and no field for the credential.
\<close>

theorem admission_on_completed_handshake:
  assumes "upgrade_token env req = Inr token" "token \<noteq> []"
    and "getSupabaseClient env token = Inr client"
    and "authenticateUser env client token = Inr authenticated"
    and "handleUpgrade env req = Inr (Some ws)"
  shows "connection_events (upgrade_handler env req) =
           [(ws, \<lparr> user = authenticated, supabase = client, timestamp = toISOString_now env \<rparr>)] \<and>
         wire (upgrade_handler env req) = [] \<and>
         createClient env (SUPABASE_URL env) (SUPABASE_KEY env)
           [(''Authorization'', ''Bearer '' @ token)] = Inr client"
  using assms
  by (simp add: upgrade_handler_def upgrade_try_def wire_def getSupabaseClient_def)

theorem admission_on_completed_handshake_witness:
  "upgrade_token sample_env
     \<lparr> req_url = Some ''/'', host = Some ''localhost:8080'', authorization = Some ''Bearer good'' \<rparr>
     = Inr ''good'' \<and>
   connection_events (upgrade_handler sample_env
     \<lparr> req_url = Some ''/'', host = Some ''localhost:8080'', authorization = Some ''Bearer good'' \<rparr>)
     = [(1, \<lparr> user = ''user@example.com'',
             supabase = (''https://project.supabase.co'', [(''Authorization'', ''Bearer good'')]),
             timestamp = ''2025-01-01T00:00:00.000Z'' \<rparr>)] \<and>
   wire (upgrade_handler sample_env
     \<lparr> req_url = Some ''/'', host = Some ''localhost:8080'', authorization = Some ''Bearer good'' \<rparr>)
     = []"
proof -
  let ?req = "\<lparr> req_url = Some ''/'', host = Some ''localhost:8080'', authorization = Some ''Bearer good'' \<rparr>"
  let ?client = "(''https://project.supabase.co'', [(''Authorization'', ''Bearer good'')])"
  have 1: "upgrade_token sample_env ?req = Inr ''good''"
    by (simp add: sample_env_def upgrade_token_def url_text_def url_base_def)
  have 2: "''good'' \<noteq> []" by simp
  have 3: "getSupabaseClient sample_env ''good'' = Inr ?client"
    by (simp add: sample_env_def getSupabaseClient_def)
  have 4: "authenticateUser sample_env ?client ''good'' = Inr ''user@example.com''"
    by (simp add: sample_env_def)
  have 5: "handleUpgrade sample_env ?req = Inr (Some 1)"
    by (simp add: sample_env_def)
  have 6: "toISOString_now sample_env = ''2025-01-01T00:00:00.000Z''"
    by (simp add: sample_env_def)
  from admission_on_completed_handshake[OF 1 2 3 4 5] 1 6 show ?thesis by simp
qed

text \<open>
  Claim C6, as stated, at two requests. With no query parameter and the header
  \<^verbatim>\<open>Token Bearer good\<close>, the credential is \<^verbatim>\<open>Token good\<close>: the first \<^verbatim>\<open>Bearer \<close> is removed
  though it is not a prefix. With no query parameter, no header and a host that makes the
  URL constructor throw, the response is the status line alone, without a challenge.
\<close>

theorem credential_extraction_counterexample:
  "upgrade_token sample_env
     \<lparr> req_url = Some ''/'', host = Some ''localhost:8080'',
       authorization = Some ''Token Bearer good'' \<rparr>
     = Inr ''Token good'' \<and>
   spec_credential None (Some ''Token Bearer good'') = ''Token Bearer good'' \<and>
   wire (upgrade_handler sample_env \<lparr> req_url = None, host = Some ''['', authorization = None \<rparr>)
     = [SocketWrite unauthorized_bare, SocketDestroy] \<and>
   unauthorized_bare = http_response ''HTTP/1.1 401 Unauthorized'' []"
  by (simp add: sample_env_def upgrade_token_def url_text_def url_base_def spec_credential_def
      upgrade_handler_def upgrade_try_def upgrade_catch_def wire_def unauthorized_bare_def
      http_response_def)

text \<open>
  Claim C6, amended. When the URL parses: a query parameter \<^verbatim>\<open>token\<close> that is present and
  not empty is the credential; otherwise the credential is the \<^verbatim>\<open>authorization\<close> header
  with the first occurrence of \<^verbatim>\<open>Bearer \<close> removed (for a header that starts with it, the
  rest of the header), or the empty string when there is no header; and whenever the
  credential is empty, the handler writes the 401 status line with the
  \<^verbatim>\<open>WWW-Authenticate\<close> header, destroys the socket and emits no \<^verbatim>\<open>connection\<close> event.
\<close>

theorem credential_extraction_and_challenge:
  assumes "searchParams_token env (url_text req) (url_base req) = Inr query"
  shows "(truthy query \<longrightarrow> upgrade_token env req = Inr (the query)) \<and>
         (\<not> truthy query \<longrightarrow>
            upgrade_token env req =
              Inr (case authorization req of
                     None \<Rightarrow> []
                   | Some h \<Rightarrow> replace_first ''Bearer '' [] h)) \<and>
         replace_first ''Bearer '' [] (''Bearer '' @ rest) = rest \<and>
         (upgrade_token env req = Inr [] \<longrightarrow>
            wire (upgrade_handler env req) = [SocketWrite unauthorized_challenge, SocketDestroy] \<and>
            connection_events (upgrade_handler env req) = []) \<and>
         unauthorized_challenge =
           http_response ''HTTP/1.1 401 Unauthorized''
             [''WWW-Authenticate: Bearer realm='' @ [CHR 0x22] @ ''Access to WebSocket'' @ [CHR 0x22]]"
proof -
  have a: "truthy query \<longrightarrow> upgrade_token env req = Inr (the query)"
    using assms by (simp add: upgrade_token_def)
  have b: "\<not> truthy query \<longrightarrow>
            upgrade_token env req =
              Inr (case authorization req of
                     None \<Rightarrow> []
                   | Some h \<Rightarrow> replace_first ''Bearer '' [] h)"
    using assms by (cases "authorization req") (auto simp: upgrade_token_def Let_def)
  have c: "replace_first ''Bearer '' [] (''Bearer '' @ rest) = rest"
    using replace_first_prefix[of "''Bearer ''" "[]" rest] by simp
  have d: "upgrade_token env req = Inr [] \<longrightarrow>
            wire (upgrade_handler env req) = [SocketWrite unauthorized_challenge, SocketDestroy] \<and>
            connection_events (upgrade_handler env req) = []"
    by (simp add: upgrade_handler_no_token wire_def)
  have e: "unauthorized_challenge =
           http_response ''HTTP/1.1 401 Unauthorized''
             [''WWW-Authenticate: Bearer realm='' @ [CHR 0x22] @ ''Access to WebSocket'' @ [CHR 0x22]]"
    by (simp add: unauthorized_challenge_def http_response_def)
  from a b c d e show ?thesis by blast
qed

theorem credential_extraction_and_challenge_witness:
  "searchParams_token sample_env
     (url_text \<lparr> req_url = Some ''/'', host = Some ''localhost:8080'', authorization = None \<rparr>)
     (url_base \<lparr> req_url = Some ''/'', host = Some ''localhost:8080'', authorization = None \<rparr>)
     = Inr None \<and>
   upgrade_token sample_env
     \<lparr> req_url = Some ''/'', host = Some ''localhost:8080'', authorization = None \<rparr> = Inr [] \<and>
   wire (upgrade_handler sample_env
     \<lparr> req_url = Some ''/'', host = Some ''localhost:8080'', authorization = None \<rparr>)
     = [SocketWrite unauthorized_challenge, SocketDestroy] \<and>
   connection_events (upgrade_handler sample_env
     \<lparr> req_url = Some ''/'', host = Some ''localhost:8080'', authorization = None \<rparr>) = [] \<and>
   upgrade_token sample_env
     \<lparr> req_url = Some ''/?token=good'', host = Some ''localhost:8080'',
       authorization = Some ''Bearer other'' \<rparr> = Inr ''good'' \<and>
   upgrade_token sample_env
     \<lparr> req_url = Some ''/'', host = Some ''localhost:8080'',
       authorization = Some ''Bearer other'' \<rparr> = Inr ''other''"
proof -
  let ?req = "\<lparr> req_url = Some ''/'', host = Some ''localhost:8080'', authorization = None \<rparr>"
  let ?req1 = "\<lparr> req_url = Some ''/?token=good'', host = Some ''localhost:8080'',
       authorization = Some ''Bearer other'' \<rparr>"
  let ?req2 = "\<lparr> req_url = Some ''/'', host = Some ''localhost:8080'',
       authorization = Some ''Bearer other'' \<rparr>"
  have q: "searchParams_token sample_env (url_text ?req) (url_base ?req) = Inr None"
    by (simp add: sample_env_def url_text_def url_base_def)
  have q1: "searchParams_token sample_env (url_text ?req1) (url_base ?req1) = Inr (Some ''good'')"
    by (simp add: sample_env_def url_text_def url_base_def)
  have q2: "searchParams_token sample_env (url_text ?req2) (url_base ?req2) = Inr None"
    by (simp add: sample_env_def url_text_def url_base_def)
  note t = credential_extraction_and_challenge[OF q, of "[]"]
  note t1 = credential_extraction_and_challenge[OF q1, of "[]"]
  note t2 = credential_extraction_and_challenge[OF q2, of "''other''"]
  have a: "upgrade_token sample_env ?req = Inr []"
    using t[THEN conjunct2, THEN conjunct1] by simp
  have b: "wire (upgrade_handler sample_env ?req) = [SocketWrite unauthorized_challenge, SocketDestroy] \<and>
           connection_events (upgrade_handler sample_env ?req) = []"
    by (rule t[THEN conjunct2, THEN conjunct2, THEN conjunct2, THEN conjunct1, THEN mp, OF a])
  have c: "upgrade_token sample_env ?req1 = Inr ''good''"
    using t1[THEN conjunct1] by simp
  have d: "upgrade_token sample_env ?req2 = Inr ''other''"
    using t2[THEN conjunct2, THEN conjunct1] t2[THEN conjunct2, THEN conjunct2, THEN conjunct1]
    by simp
  show ?thesis
    using b by (intro conjI q a c d) simp_all
qed

lemma upgrade_handler_url_throws:
  fixes env :: "('c, 'u, 'w) gate_env"
  assumes "upgrade_token env req = Inl err"
  shows "\<exists>logs. upgrade_handler env req = Console IncomingUpgrade # map Console logs @
           [SocketWrite unauthorized_bare, SocketDestroy]"
proof -
  have "\<exists>l. (upgrade_catch err :: ('c, 'u, 'w) effect list) =
          [Console l, SocketWrite unauthorized_bare, SocketDestroy]"
    by (auto simp: upgrade_catch_def split: thrown.splits)
  then obtain l where l: "(upgrade_catch err :: ('c, 'u, 'w) effect list) =
          [Console l, SocketWrite unauthorized_bare, SocketDestroy]"
    by blast
  have "upgrade_handler env req = Console IncomingUpgrade # map Console [l] @
           [SocketWrite unauthorized_bare, SocketDestroy]"
    using assms l by (simp add: upgrade_handler_def upgrade_try_def)
  then show ?thesis by blast
qed

lemma upgrade_handler_aborted:
  assumes "upgrade_token env req = Inr token" "token \<noteq> []"
    and "getSupabaseClient env token = Inr client"
    and "authenticateUser env client token = Inr authenticated"
    and "handleUpgrade env req = Inr None"
  shows "upgrade_handler env req = [Console IncomingUpgrade, Console UserAuthenticated]"
  using assms by (simp add: upgrade_handler_def upgrade_try_def)

text \<open>
  Claim C7, as stated, at a request that fails after its token was accepted: the client is
  built, the user is authenticated, and the WebSocket library ends the handshake itself
  without throwing. The \<^verbatim>\<open>catch\<close> block does not run: the handler writes no 401 and does
  not destroy the socket.
\<close>

theorem upgrade_failure_without_401_counterexample:
  "upgrade_token aborting_env
     \<lparr> req_url = Some ''/?token=good'', host = Some ''localhost:8080'', authorization = None \<rparr>
     = Inr ''good'' \<and>
   handleUpgrade aborting_env
     \<lparr> req_url = Some ''/?token=good'', host = Some ''localhost:8080'', authorization = None \<rparr>
     = Inr None \<and>
   upgrade_handler aborting_env
     \<lparr> req_url = Some ''/?token=good'', host = Some ''localhost:8080'', authorization = None \<rparr>
     = [Console IncomingUpgrade, Console UserAuthenticated] \<and>
   wire (upgrade_handler aborting_env
     \<lparr> req_url = Some ''/?token=good'', host = Some ''localhost:8080'', authorization = None \<rparr>)
     = []"
  by (simp add: aborting_env_def sample_env_def upgrade_token_def url_text_def url_base_def
      getSupabaseClient_def upgrade_handler_def upgrade_try_def wire_def)

text \<open>
  Claim C7, amended. Whenever a statement of the \<^verbatim>\<open>try\<close> block throws, whatever the value
  thrown (the URL constructor, or, once a token that is not empty was extracted, the client
  factory, the authentication or the call of \<^verbatim>\<open>handleUpgrade\<close>), the handler writes the bare
  401 status line, destroys the socket and emits no \<^verbatim>\<open>connection\<close> event: the same bytes on
  the wire for every cause. When instead the library ends the handshake itself without
  throwing, the handler writes nothing, does not destroy the socket and emits no event.
\<close>

theorem upgrade_exceptions_look_alike:
  fixes env :: "('c, 'u, 'w) gate_env"
  shows
   "((upgrade_token env req = Inl err \<or>
      (\<exists>token. upgrade_token env req = Inr token \<and> token \<noteq> [] \<and>
         (getSupabaseClient env token = Inl err \<or>
          (\<exists>client. getSupabaseClient env token = Inr client \<and>
             (authenticateUser env client token = Inl err \<or>
              (\<exists>authenticated. authenticateUser env client token = Inr authenticated \<and>
                 handleUpgrade env req = Inl err)))))) \<longrightarrow>
       wire (upgrade_handler env req) = [SocketWrite unauthorized_bare, SocketDestroy] \<and>
       connection_events (upgrade_handler env req) = []) \<and>
    ((\<exists>token client authenticated.
        upgrade_token env req = Inr token \<and> token \<noteq> [] \<and>
        getSupabaseClient env token = Inr client \<and>
        authenticateUser env client token = Inr authenticated \<and>
        handleUpgrade env req = Inr None) \<longrightarrow>
       wire (upgrade_handler env req) = [] \<and>
       connection_events (upgrade_handler env req) = []) \<and>
    unauthorized_bare = http_response ''HTTP/1.1 401 Unauthorized'' []"
proof (intro conjI impI)
  assume cause: "upgrade_token env req = Inl err \<or>
      (\<exists>token. upgrade_token env req = Inr token \<and> token \<noteq> [] \<and>
         (getSupabaseClient env token = Inl err \<or>
          (\<exists>client. getSupabaseClient env token = Inr client \<and>
             (authenticateUser env client token = Inl err \<or>
              (\<exists>authenticated. authenticateUser env client token = Inr authenticated \<and>
                 handleUpgrade env req = Inl err)))))"
  have "\<exists>logs. upgrade_handler env req = Console IncomingUpgrade # map Console logs @
           [SocketWrite unauthorized_bare, SocketDestroy]"
  proof (rule disjE[OF cause])
    assume "upgrade_token env req = Inl err"
    then show ?thesis by (rule upgrade_handler_url_throws)
  next
    assume "\<exists>token. upgrade_token env req = Inr token \<and> token \<noteq> [] \<and>
         (getSupabaseClient env token = Inl err \<or>
          (\<exists>client. getSupabaseClient env token = Inr client \<and>
             (authenticateUser env client token = Inl err \<or>
              (\<exists>authenticated. authenticateUser env client token = Inr authenticated \<and>
                 handleUpgrade env req = Inl err))))"
    then obtain token where t: "upgrade_token env req = Inr token" "token \<noteq> []"
      "getSupabaseClient env token = Inl err \<or>
          (\<exists>client. getSupabaseClient env token = Inr client \<and>
             (authenticateUser env client token = Inl err \<or>
              (\<exists>authenticated. authenticateUser env client token = Inr authenticated \<and>
                 handleUpgrade env req = Inl err)))"
      by (elim exE conjE)
    show ?thesis by (rule upgrade_handler_throws[OF t])
  qed
  then obtain logs where h: "upgrade_handler env req = Console IncomingUpgrade # map Console logs @
           [SocketWrite unauthorized_bare, SocketDestroy]"
    by (elim exE)
  have m: "upgrade_handler env req = map Console (IncomingUpgrade # logs) @
           [SocketWrite unauthorized_bare, SocketDestroy]"
    by (simp add: h)
  show "wire (upgrade_handler env req) = [SocketWrite unauthorized_bare, SocketDestroy]"
    by (simp only: m wire_console) (simp add: wire_def)
  show "connection_events (upgrade_handler env req) = []"
    by (simp only: m connection_events_console) simp
next
  assume "\<exists>token client authenticated.
        upgrade_token env req = Inr token \<and> token \<noteq> [] \<and>
        getSupabaseClient env token = Inr client \<and>
        authenticateUser env client token = Inr authenticated \<and>
        handleUpgrade env req = Inr None"
  then obtain token client authenticated where a:
        "upgrade_token env req = Inr token" "token \<noteq> []"
        "getSupabaseClient env token = Inr client"
        "authenticateUser env client token = Inr authenticated"
        "handleUpgrade env req = Inr None"
    by (elim exE conjE)
  note h = upgrade_handler_aborted[OF a]
  show "wire (upgrade_handler env req) = []" by (simp add: h wire_def)
  show "connection_events (upgrade_handler env req) = []" by (simp add: h)
next
  show "unauthorized_bare = http_response ''HTTP/1.1 401 Unauthorized'' []"
    by (simp add: unauthorized_bare_def http_response_def)
qed

theorem upgrade_exceptions_look_alike_witness:
  "upgrade_token sample_env
     \<lparr> req_url = Some ''/?token=expired'', host = Some ''localhost:8080'', authorization = None \<rparr>
     = Inr ''expired'' \<and>
   authenticateUser sample_env
     (''https://project.supabase.co'', [(''Authorization'', ''Bearer expired'')]) ''expired''
     = Inl (ErrorObj ''Authentication failed: invalid token'') \<and>
   wire (upgrade_handler sample_env
     \<lparr> req_url = Some ''/?token=expired'', host = Some ''localhost:8080'', authorization = None \<rparr>)
     = [SocketWrite unauthorized_bare, SocketDestroy] \<and>
   connection_events (upgrade_handler sample_env
     \<lparr> req_url = Some ''/?token=expired'', host = Some ''localhost:8080'', authorization = None \<rparr>)
     = [] \<and>
   upgrade_token sample_env
     \<lparr> req_url = Some ''/?token=good'', host = Some ''['', authorization = None \<rparr>
     = Inl (ErrorObj ''Invalid URL'') \<and>
   wire (upgrade_handler sample_env
     \<lparr> req_url = Some ''/?token=good'', host = Some ''['', authorization = None \<rparr>)
     = [SocketWrite unauthorized_bare, SocketDestroy] \<and>
   handleUpgrade throwing_env
     \<lparr> req_url = Some ''/?token=good'', host = Some ''localhost:8080'', authorization = None \<rparr>
     = Inl (ErrorObj ''handleUpgrade failed'') \<and>
   wire (upgrade_handler throwing_env
     \<lparr> req_url = Some ''/?token=good'', host = Some ''localhost:8080'', authorization = None \<rparr>)
     = [SocketWrite unauthorized_bare, SocketDestroy] \<and>
   handleUpgrade aborting_env
     \<lparr> req_url = Some ''/?token=good'', host = Some ''localhost:8080'', authorization = None \<rparr>
     = Inr None \<and>
   wire (upgrade_handler aborting_env
     \<lparr> req_url = Some ''/?token=good'', host = Some ''localhost:8080'', authorization = None \<rparr>)
     = []"
proof -
  let ?req = "\<lparr> req_url = Some ''/?token=expired'', host = Some ''localhost:8080'', authorization = None \<rparr>"
  let ?bad = "\<lparr> req_url = Some ''/?token=good'', host = Some ''['', authorization = None \<rparr>"
  let ?good = "\<lparr> req_url = Some ''/?token=good'', host = Some ''localhost:8080'', authorization = None \<rparr>"
  let ?client = "(''https://project.supabase.co'', [(''Authorization'', ''Bearer expired'')])"
  let ?gclient = "(''https://project.supabase.co'', [(''Authorization'', ''Bearer good'')])"
  let ?err = "ErrorObj ''Authentication failed: invalid token''"
  let ?uerr = "ErrorObj ''Invalid URL''"
  let ?herr = "ErrorObj ''handleUpgrade failed''"
  have 1: "upgrade_token sample_env ?req = Inr ''expired''"
    by (simp add: sample_env_def upgrade_token_def url_text_def url_base_def)
  have 3: "getSupabaseClient sample_env ''expired'' = Inr ?client"
    by (simp add: sample_env_def getSupabaseClient_def)
  have 4: "authenticateUser sample_env ?client ''expired'' = Inl ?err"
    by (simp add: sample_env_def)
  have c1: "upgrade_token sample_env ?req = Inl ?err \<or>
      (\<exists>token. upgrade_token sample_env ?req = Inr token \<and> token \<noteq> [] \<and>
         (getSupabaseClient sample_env token = Inl ?err \<or>
          (\<exists>client. getSupabaseClient sample_env token = Inr client \<and>
             (authenticateUser sample_env client token = Inl ?err \<or>
              (\<exists>authenticated. authenticateUser sample_env client token = Inr authenticated \<and>
                 handleUpgrade sample_env ?req = Inl ?err)))))"
    by (rule disjI2, rule exI[of _ "''expired''"], intro conjI 1, simp,
        rule disjI2, rule exI[of _ ?client], intro conjI 3, rule disjI1, rule 4)
  note r1 = upgrade_exceptions_look_alike[of sample_env ?req ?err, THEN conjunct1, THEN mp, OF c1]
  have 5: "upgrade_token sample_env ?bad = Inl ?uerr"
    by (simp add: sample_env_def upgrade_token_def url_text_def url_base_def)
  have c2: "upgrade_token sample_env ?bad = Inl ?uerr \<or>
      (\<exists>token. upgrade_token sample_env ?bad = Inr token \<and> token \<noteq> [] \<and>
         (getSupabaseClient sample_env token = Inl ?uerr \<or>
          (\<exists>client. getSupabaseClient sample_env token = Inr client \<and>
             (authenticateUser sample_env client token = Inl ?uerr \<or>
              (\<exists>authenticated. authenticateUser sample_env client token = Inr authenticated \<and>
                 handleUpgrade sample_env ?bad = Inl ?uerr)))))"
    by (rule disjI1) (rule 5)
  note r2 = upgrade_exceptions_look_alike[of sample_env ?bad ?uerr, THEN conjunct1, THEN mp, OF c2]
  have 6: "upgrade_token throwing_env ?good = Inr ''good''"
    by (simp add: throwing_env_def sample_env_def upgrade_token_def url_text_def url_base_def)
  have 7: "getSupabaseClient throwing_env ''good'' = Inr ?gclient"
    by (simp add: throwing_env_def sample_env_def getSupabaseClient_def)
  have 8: "authenticateUser throwing_env ?gclient ''good'' = Inr ''user@example.com''"
    by (simp add: throwing_env_def sample_env_def)
  have 9: "handleUpgrade throwing_env ?good = Inl ?herr"
    by (simp add: throwing_env_def)
  have c3: "upgrade_token throwing_env ?good = Inl ?herr \<or>
      (\<exists>token. upgrade_token throwing_env ?good = Inr token \<and> token \<noteq> [] \<and>
         (getSupabaseClient throwing_env token = Inl ?herr \<or>
          (\<exists>client. getSupabaseClient throwing_env token = Inr client \<and>
             (authenticateUser throwing_env client token = Inl ?herr \<or>
              (\<exists>authenticated. authenticateUser throwing_env client token = Inr authenticated \<and>
                 handleUpgrade throwing_env ?good = Inl ?herr)))))"
    by (rule disjI2, rule exI[of _ "''good''"], intro conjI 6, simp,
        rule disjI2, rule exI[of _ ?gclient], intro conjI 7, rule disjI2,
        rule exI[of _ "''user@example.com''"], intro conjI 8 9)
  note r3 = upgrade_exceptions_look_alike[of throwing_env ?good ?herr, THEN conjunct1, THEN mp, OF c3]
  have 10: "upgrade_token aborting_env ?good = Inr ''good''"
    by (simp add: aborting_env_def sample_env_def upgrade_token_def url_text_def url_base_def)
  have 11: "getSupabaseClient aborting_env ''good'' = Inr ?gclient"
    by (simp add: aborting_env_def sample_env_def getSupabaseClient_def)
  have 12: "authenticateUser aborting_env ?gclient ''good'' = Inr ''user@example.com''"
    by (simp add: aborting_env_def sample_env_def)
  have 13: "handleUpgrade aborting_env ?good = Inr None"
    by (simp add: aborting_env_def)
  have c4: "\<exists>token client authenticated.
        upgrade_token aborting_env ?good = Inr token \<and> token \<noteq> [] \<and>
        getSupabaseClient aborting_env token = Inr client \<and>
        authenticateUser aborting_env client token = Inr authenticated \<and>
        handleUpgrade aborting_env ?good = Inr None"
    by (rule exI[of _ "''good''"], rule exI[of _ ?gclient], rule exI[of _ "''user@example.com''"],
        intro conjI 10 11 12 13, simp)
  note r4 = upgrade_exceptions_look_alike[of aborting_env ?good ?herr, THEN conjunct2,
      THEN conjunct1, THEN mp, OF c4]
  show ?thesis
    by (intro conjI 1 4 5 9 13 r1[THEN conjunct1] r1[THEN conjunct2] r2[THEN conjunct1]
        r3[THEN conjunct1] r4[THEN conjunct1])
qed

section \<open>ShutdownCoordinator: claim\<close>

lemma deliver_exited: "exit_status st \<noteq> None \<Longrightarrow> foldl deliver st evs = st"
  by (induction evs) (auto simp: deliver_def)

lemma shutdown_run_general:
  assumes "exit_status st = None" "serversClosed st < 2"
  shows "exit_status (foldl deliver st evs) =
           (if 2 \<le> serversClosed st + reports_before_timeout evs then Some 0
            else if TimeoutElapsed \<in> set evs then Some 1 else None) \<and>
         serversClosed (foldl deliver st evs) =
           min 2 (serversClosed st + reports_before_timeout evs)"
  using assms
proof (induction evs arbitrary: st)
  case Nil
  then show ?case by (simp add: reports_before_timeout_def)
next
  case (Cons ev evs)
  show ?case
  proof (cases "ev = TimeoutElapsed")
    case True
    have d: "deliver st TimeoutElapsed = st\<lparr>exit_status := Some 1\<rparr>"
      using Cons.prems by (simp add: deliver_def)
    have "foldl deliver (st\<lparr>exit_status := Some 1\<rparr>) evs = st\<lparr>exit_status := Some 1\<rparr>"
      by (rule deliver_exited) simp
    then show ?thesis
      using Cons.prems True by (simp add: d reports_before_timeout_def)
  next
    case False
    then have cb: "deliver st ev = checkExit st" "is_close_report ev"
      using Cons.prems by (cases ev; simp add: deliver_def)+
    have r: "reports_before_timeout (ev # evs) = Suc (reports_before_timeout evs)"
      using False cb(2) by (simp add: reports_before_timeout_def)
    show ?thesis
    proof (cases "serversClosed st = 1")
      case True
      then have e: "checkExit st = st\<lparr>serversClosed := 2, exit_status := Some 0\<rparr>"
        by (simp add: checkExit_def totalServers_def Let_def)
      have "foldl deliver (checkExit st) evs = checkExit st"
        by (rule deliver_exited) (simp add: e)
      then show ?thesis using True by (simp add: cb r e)
    next
      case neq: False
      then have z: "serversClosed st = 0" using Cons.prems by simp
      then have e: "checkExit st = st\<lparr>serversClosed := 1\<rparr>"
        by (simp add: checkExit_def totalServers_def Let_def)
      have "exit_status (checkExit st) = None" "serversClosed (checkExit st) < 2"
        using Cons.prems by (simp_all add: e)
      from Cons.IH[OF this] show ?thesis
        using False by (simp add: cb r e z)
    qed
  qed
qed

lemma reports_without_error:
  "reports_before_timeout (map without_error evs) = reports_before_timeout evs \<and>
   (TimeoutElapsed \<in> set (map without_error evs)) = (TimeoutElapsed \<in> set evs)"
proof (induction evs)
  case Nil
  show ?case by simp
next
  case (Cons ev evs)
  then show ?case by (cases ev) (auto simp: reports_before_timeout_def)
qed

text \<open>
  Claim C9. The listener starts closing both servers and arms a timer of 5000 ms without
  waiting in between. Whatever events arrive afterwards and in whatever order: the
  process exits with status 0 when two close reports arrive before the timer fires, and
  exactly then is the counter equal to the number of servers; it exits with status 1 when
  the timer fires before two close reports have arrived; it keeps running when neither has
  happened yet; the first of the two triggers decides, since no callback runs after the
  exit; and a close report that carries an error counts like one that carries none.
\<close>

theorem shutdown_first_trigger_wins:
  "filter (\<lambda>a. \<not> is_log a) sigint_listener = [CloseHttpServer, CloseWebSocketServer, SetTimeout 5000] \<and>
   exit_status (shutdown_run evs) =
     (if totalServers \<le> reports_before_timeout evs then Some 0
      else if TimeoutElapsed \<in> set evs then Some 1 else None) \<and>
   serversClosed (shutdown_run evs) = min totalServers (reports_before_timeout evs) \<and>
   (exit_status (shutdown_run evs) = Some 0) = (serversClosed (shutdown_run evs) = totalServers) \<and>
   exit_status (shutdown_run (map without_error evs)) = exit_status (shutdown_run evs) \<and>
   serversClosed (shutdown_run (map without_error evs)) = serversClosed (shutdown_run evs)"
proof -
  have s: "exit_status shutdown_start = None" "serversClosed shutdown_start < 2"
    by (simp_all add: shutdown_start_def)
  have z: "serversClosed shutdown_start = 0" by (simp add: shutdown_start_def)
  note g = shutdown_run_general[OF s, unfolded z, simplified]
  have 1: "filter (\<lambda>a. \<not> is_log a) sigint_listener = [CloseHttpServer, CloseWebSocketServer, SetTimeout 5000]"
    by (simp add: sigint_listener_def)
  show ?thesis
    using g[of evs] g[of "map without_error evs"] reports_without_error[of evs] 1
    by (auto simp: shutdown_run_def totalServers_def)
qed

lemma shutdown_examples:
  "exit_status (shutdown_run [WebSocketServerClosed None, HttpServerClosed (Some (ErrorObj ''not running'')), TimeoutElapsed]) = Some 0"
  "exit_status (shutdown_run [WebSocketServerClosed None, TimeoutElapsed, HttpServerClosed None]) = Some 1"
  "exit_status (shutdown_run [WebSocketServerClosed None]) = None"
  by (simp_all add: shutdown_run_def deliver_def checkExit_def totalServers_def shutdown_start_def)

section \<open>Conversation history: claim\<close>

lemma chat_history_query_fields:
  "limit_rows (chat_history_query t userId key isDoctor) = Some 20"
  "order_created_at_ascending (chat_history_query t userId key isDoctor) = Some False"
  "filters (chat_history_query t userId key isDoctor) =
     EqUserId userId #
     (if truthy key then [EqPersonalityKey (the key)] else []) @
     (if isDoctor then [GteCreatedAt t] else [])"
  by (simp_all add: chat_history_query_def Let_def)

lemma select_rows_chat_history:
  "select_rows table (chat_history_query t userId key isDoctor) =
     take 20 (sort_key (\<lambda>row. - created_at row)
       (filter (\<lambda>row. user_id row = userId \<and>
                       (truthy key \<longrightarrow> personality_key row = key) \<and>
                       (isDoctor \<longrightarrow> t \<le> created_at row)) table))"
proof -
  have "list_all (passes row) (filters (chat_history_query t userId key isDoctor)) =
          (user_id row = userId \<and> (truthy key \<longrightarrow> personality_key row = key) \<and>
           (isDoctor \<longrightarrow> t \<le> created_at row))" for row
    by (cases key) (auto simp: chat_history_query_fields)
  then show ?thesis
    by (simp add: select_rows_def chat_history_query_fields Let_def)
qed

lemma sorted_descending:
  "sorted_wrt (\<lambda>a b. created_at b \<le> created_at a) (sort_key (\<lambda>row. - created_at row) rows)"
  using sorted_sort_key[of "\<lambda>row. - created_at row" rows]
  by (simp add: sorted_map)

lemma take_sort_filter:
  assumes "rows = take n (sort_key f (filter P table))"
  shows "length rows \<le> n" "set rows \<subseteq> set table" "\<forall>r \<in> set rows. P r"
proof -
  show "length rows \<le> n" using assms by simp
  have "set rows \<subseteq> set (sort_key f (filter P table))"
    unfolding assms by (rule set_take_subset)
  then have s: "set rows \<subseteq> set (filter P table)" by simp
  then show "set rows \<subseteq> set table" "\<forall>r \<in> set rows. P r" by auto
qed

text \<open>
  Claim C10. \<^verbatim>\<open>getChatHistory\<close> always returns a list and never an error: the empty list
  when the query gives an error or anything throws. When the store answers the query on
  the rows \<open>table\<close>, the result has at most 20 rows of \<open>table\<close>, all of the given user, all
  with the given personality key when a key that is not empty was passed, ordered by
  \<open>created_at\<close> descending: the first 20 of the matching rows in that order (for a
  doctor, only rows not older than \<open>twoHoursAgo\<close> match).
\<close>

theorem chat_history_never_fails:
  "(\<exists>rows. getChatHistory execute t userId key isDoctor = Inr rows) \<and>
   (\<forall>e. execute (chat_history_query t userId key isDoctor) = QueryError e \<longrightarrow>
        getChatHistory execute t userId key isDoctor = Inr []) \<and>
   (\<forall>e. execute (chat_history_query t userId key isDoctor) = QueryThrows e \<longrightarrow>
        getChatHistory execute t userId key isDoctor = Inr []) \<and>
   (execute (chat_history_query t userId key isDoctor) =
      QueryData (select_rows table (chat_history_query t userId key isDoctor)) \<longrightarrow>
    (\<exists>rows. getChatHistory execute t userId key isDoctor = Inr rows \<and>
       length rows \<le> 20 \<and>
       set rows \<subseteq> set table \<and>
       (\<forall>r \<in> set rows. user_id r = userId) \<and>
       (\<forall>k. key = Some k \<and> k \<noteq> [] \<longrightarrow> (\<forall>r \<in> set rows. personality_key r = Some k)) \<and>
       sorted_wrt (\<lambda>a b. created_at b \<le> created_at a) rows \<and>
       rows = take 20 (sort_key (\<lambda>row. - created_at row)
                (filter (\<lambda>row. user_id row = userId \<and>
                                (truthy key \<longrightarrow> personality_key row = key) \<and>
                                (isDoctor \<longrightarrow> t \<le> created_at row)) table))))"
proof -
  let ?q = "chat_history_query t userId key isDoctor"
  let ?P = "\<lambda>row. user_id row = userId \<and> (truthy key \<longrightarrow> personality_key row = key) \<and>
                   (isDoctor \<longrightarrow> t \<le> created_at row)"
  let ?rows = "take 20 (sort_key (\<lambda>row. - created_at row) (filter ?P table))"
  have total: "\<exists>rows. getChatHistory execute t userId key isDoctor = Inr rows"
    by (cases "execute ?q") (simp_all add: getChatHistory_def getChatHistory_try_def)
  have err: "\<forall>e. execute ?q = QueryError e \<longrightarrow> getChatHistory execute t userId key isDoctor = Inr []"
    by (simp add: getChatHistory_def getChatHistory_try_def)
  have thr: "\<forall>e. execute ?q = QueryThrows e \<longrightarrow> getChatHistory execute t userId key isDoctor = Inr []"
    by (simp add: getChatHistory_def getChatHistory_try_def)
  have ok: "\<exists>rows. getChatHistory execute t userId key isDoctor = Inr rows \<and>
       length rows \<le> 20 \<and> set rows \<subseteq> set table \<and>
       (\<forall>r \<in> set rows. user_id r = userId) \<and>
       (\<forall>k. key = Some k \<and> k \<noteq> [] \<longrightarrow> (\<forall>r \<in> set rows. personality_key r = Some k)) \<and>
       sorted_wrt (\<lambda>a b. created_at b \<le> created_at a) rows \<and> rows = ?rows"
    if ex: "execute ?q = QueryData (select_rows table ?q)"
  proof -
    have g: "getChatHistory execute t userId key isDoctor = Inr ?rows"
      using ex by (simp add: getChatHistory_def getChatHistory_try_def select_rows_chat_history)
    define rows where "rows = ?rows"
    note p = take_sort_filter[OF rows_def]
    have u: "\<forall>r \<in> set rows. user_id r = userId" using p(3) by blast
    have k: "\<forall>k. key = Some k \<and> k \<noteq> [] \<longrightarrow> (\<forall>r \<in> set rows. personality_key r = Some k)"
    proof (intro allI impI ballI)
      fix k r
      assume "key = Some k \<and> k \<noteq> []" "r \<in> set rows"
      then show "personality_key r = Some k" using p(3) by simp
    qed
    have s: "sorted_wrt (\<lambda>a b. created_at b \<le> created_at a) rows"
      unfolding rows_def by (rule sorted_wrt_take) (rule sorted_descending)
    have g': "getChatHistory execute t userId key isDoctor = Inr rows"
      using g by (simp only: rows_def)
    show ?thesis
      by (intro exI[of _ rows] conjI g' p(1) p(2) u k s rows_def)
  qed
  show ?thesis
    by (intro conjI total err thr impI ok)
qed

theorem chat_history_never_fails_witness:
  "select_rows sample_table (chat_history_query 0 ''u1'' (Some ''owl'') False) =
     [\<lparr> user_id = ''u1'', personality_key = Some ''owl'', created_at = 400,
         role = ''assistant'', content = ''ok'' \<rparr>,
      \<lparr> user_id = ''u1'', personality_key = Some ''owl'', created_at = 100,
         role = ''user'', content = ''hi'' \<rparr>] \<and>
   getChatHistory (\<lambda>q. QueryData (select_rows sample_table q)) 0 ''u1'' (Some ''owl'') False =
     Inr [\<lparr> user_id = ''u1'', personality_key = Some ''owl'', created_at = 400,
             role = ''assistant'', content = ''ok'' \<rparr>,
          \<lparr> user_id = ''u1'', personality_key = Some ''owl'', created_at = 100,
             role = ''user'', content = ''hi'' \<rparr>] \<and>
   getChatHistory (\<lambda>q. QueryError ''permission denied'') 0 ''u1'' (Some ''owl'') False = Inr []"
proof -
  let ?store = "\<lambda>q. QueryData (select_rows sample_table q)"
  have sel: "select_rows sample_table (chat_history_query 0 ''u1'' (Some ''owl'') False) =
     [\<lparr> user_id = ''u1'', personality_key = Some ''owl'', created_at = 400,
         role = ''assistant'', content = ''ok'' \<rparr>,
      \<lparr> user_id = ''u1'', personality_key = Some ''owl'', created_at = 100,
         role = ''user'', content = ''hi'' \<rparr>]"
    by code_simp
  have ans: "?store (chat_history_query 0 ''u1'' (Some ''owl'') False) =
      QueryData (select_rows sample_table (chat_history_query 0 ''u1'' (Some ''owl'') False))"
    by (rule refl)
  have fail: "(\<lambda>q. QueryError ''permission denied'') (chat_history_query 0 ''u1'' (Some ''owl'') False) =
      QueryError ''permission denied''"
    by (rule refl)
  note ok = chat_history_never_fails[of ?store 0 "''u1''" "Some ''owl''" False sample_table]
  note ko = chat_history_never_fails[of "\<lambda>q. QueryError ''permission denied''" 0 "''u1''" "Some ''owl''" False]
  from ok[THEN conjunct2, THEN conjunct2, THEN conjunct2, THEN mp, OF ans]
  have some: "\<exists>rows. getChatHistory ?store 0 ''u1'' (Some ''owl'') False = Inr rows \<and> length rows \<le> 20"
    by (elim exE conjE) (intro exI conjI; assumption)
  have run: "getChatHistory ?store 0 ''u1'' (Some ''owl'') False =
      Inr (select_rows sample_table (chat_history_query 0 ''u1'' (Some ''owl'') False))"
    by (simp add: getChatHistory_def getChatHistory_try_def)
  from ko[THEN conjunct2, THEN conjunct1, THEN spec, THEN mp, OF fail]
  have err: "getChatHistory (\<lambda>q. QueryError ''permission denied'') 0 ''u1'' (Some ''owl'') False = Inr []" .
  from some show ?thesis
    by (intro conjI sel err) (simp only: run sel)
qed

end
